theory Spec2Isabelle
  imports Main "HOL-Library.Word"
begin

section \<open>Messages, errors and outcomes\<close>

text \<open>
  The message entity of the stream client. The consumer keys its failure table by
  the whole struct, so two messages are the same key only when all three fields agree.
\<close>

record MsgEntity =
  MsgID :: string
  Key :: string
  Val :: string

text \<open>
  Go errors as values. The errors the package builds itself are constructors of their
  own; \<open>ErrExternal\<close> stands for any error value handed in from outside (the connection
  pool, the wire protocol, the user callback, a custom dead-letter mailbox).
  A function returning only \<open>error\<close> returns \<open>error option\<close>, \<open>None\<close> being Go's nil.
\<close>

datatype error =
    ErrCallbackEmpty
  | ErrClientEmpty
  | ErrIdentityEmpty
  | ErrXAckParamEmpty
  | ErrXReadGroupParamEmpty
  | ErrInvalidReply int
  | ErrNoMsg
  | ErrExternal string

text \<open>
  A call either returns or stops the goroutine with a run-time panic (a nil function
  value is called, a nil pointer is dereferenced).
\<close>

datatype 'a outcome = Panic | Return 'a

section \<open>The stream client: acknowledgment\<close>

text \<open>
  The connection pool and the connection belong to the wire library. They are modelled by
  what they answer: \<open>GetContext\<close> at an instant yields a connection or an error, and on
  a connection \<open>DoInt64\<close> is the reply of a command after the library's conversion to a
  64-bit integer (the composition \<open>redis.Int64(conn.Do(...))\<close> of the source), or the
  error of either step.

  Integers of the source that are only compared with each other and with constants (the
  reply, the durations, the retry limit) are the integers they denote. The failure
  counts are computed with, by \<open>++\<close>: they are machine integers, words of the width
  of Go's \<open>int\<close> on the build (32 or 64 bits), on which \<open>+\<close> wraps around and
  \<open>sint\<close> reads the signed value.
\<close>

record Conn =
  DoInt64 :: "string list \<Rightarrow> error + int"

record Pool =
  GetContext :: "nat \<Rightarrow> error + Conn"

record Client =
  pool :: Pool

definition XAck ::
  "Client option \<Rightarrow> nat \<Rightarrow> string \<Rightarrow> string \<Rightarrow> string \<Rightarrow> error option outcome" where
  "XAck c cx tp grp msgID =
     (if tp = [] \<or> grp = [] \<or> msgID = [] then Return (Some ErrXAckParamEmpty)
      else
        (case c of
           None \<Rightarrow> Panic
         | Some cl \<Rightarrow>
            (case GetContext (pool cl) cx of
               Inl err \<Rightarrow> Return (Some err)
             | Inr conn \<Rightarrow>
                (case DoInt64 conn [''XACK'', tp, grp, msgID] of
                   Inl err \<Rightarrow> Return (Some err)
                 | Inr reply \<Rightarrow>
                     if reply \<noteq> 1 then Return (Some (ErrInvalidReply reply))
                     else Return None))))"

text \<open>
  Reading from the stream. Only the head of \<open>xReadGroup\<close> is modelled (the parameter
  check, and the dereference of the client that follows it); what the round trip and the
  parsing of the reply return is the parameter \<open>fetched\<close>.
\<close>

definition xReadGroup ::
  "Client option \<Rightarrow> string \<Rightarrow> string \<Rightarrow> string \<Rightarrow> error + MsgEntity list
     \<Rightarrow> (error + MsgEntity list) outcome" where
  "xReadGroup c grp cid tp fetched =
     (if grp = [] \<or> cid = [] \<or> tp = [] then Return (Inl ErrXReadGroupParamEmpty)
      else (case c of None \<Rightarrow> Panic | Some cl \<Rightarrow> Return fetched))"

section \<open>Dead-letter mailbox and consumer options\<close>

text \<open>
  The mailbox interface has the logging implementation of the package and whatever the
  user implements; a user implementation is its \<open>Deliver\<close> function, which may answer
  differently at different instants. \<open>Deliver\<close> receives a pointer to the message and
  may write to it: it answers with its error and with the message as it leaves it. The
  logging mailbox only reads the message id.
\<close>

datatype DeadLetterMailbox =
    DeadLetterLogger
  | CustomMailbox "nat \<Rightarrow> MsgEntity \<Rightarrow> error option \<times> MsgEntity"

fun Deliver :: "DeadLetterMailbox \<Rightarrow> nat \<Rightarrow> MsgEntity \<Rightarrow> error option \<times> MsgEntity" where
  "Deliver DeadLetterLogger cx msg = (None, msg)"
| "Deliver (CustomMailbox f) cx msg = f cx msg"

text \<open>Durations are nanosecond counts, as in Go's \<open>time.Duration\<close>.\<close>

definition Second :: int where
  "Second = 1000000000"

record ConsumerOptions =
  receiveTimeout :: int
  maxRetryLimit :: int
  deadLetterMailbox :: "DeadLetterMailbox option"
  deadLetterDeliverTimeout :: int
  handleMsgTimeout :: int

text \<open>A consumer option is a function value, which may be nil.\<close>

type_synonym ConsumerOption = "(ConsumerOptions \<Rightarrow> ConsumerOptions) option"

definition WithReceiveTimeout :: "int \<Rightarrow> ConsumerOption" where
  "WithReceiveTimeout timeout = Some (\<lambda>os. os\<lparr>receiveTimeout := timeout\<rparr>)"

definition WithMaxRetryLimit :: "int \<Rightarrow> ConsumerOption" where
  "WithMaxRetryLimit limit = Some (\<lambda>os. os\<lparr>maxRetryLimit := limit\<rparr>)"

definition WithDeadLetterMailbox :: "DeadLetterMailbox option \<Rightarrow> ConsumerOption" where
  "WithDeadLetterMailbox mailbox = Some (\<lambda>os. os\<lparr>deadLetterMailbox := mailbox\<rparr>)"

definition WithDeadLetterDeliverTimeout :: "int \<Rightarrow> ConsumerOption" where
  "WithDeadLetterDeliverTimeout timeout = Some (\<lambda>os. os\<lparr>deadLetterDeliverTimeout := timeout\<rparr>)"

definition WithHandleMsgTimeout :: "int \<Rightarrow> ConsumerOption" where
  "WithHandleMsgTimeout timeout = Some (\<lambda>os. os\<lparr>handleMsgTimeout := timeout\<rparr>)"

definition repairConsumer :: "ConsumerOptions \<Rightarrow> ConsumerOptions" where
  "repairConsumer os0 =
     (let os1 = (if receiveTimeout os0 < 0 then os0\<lparr>receiveTimeout := 2 * Second\<rparr> else os0);
          os2 = (if maxRetryLimit os1 < 0 then os1\<lparr>maxRetryLimit := 3\<rparr> else os1);
          os3 = (if deadLetterMailbox os2 = None
                 then os2\<lparr>deadLetterMailbox := Some DeadLetterLogger\<rparr> else os2);
          os4 = (if deadLetterDeliverTimeout os3 \<le> 0
                 then os3\<lparr>deadLetterDeliverTimeout := Second\<rparr> else os3);
          os5 = (if handleMsgTimeout os4 \<le> 0 then os4\<lparr>handleMsgTimeout := Second\<rparr> else os4)
      in os5)"

text \<open>The zero value \<open>&ConsumerOptions{}\<close> the constructor starts from.\<close>

definition zeroConsumerOptions :: ConsumerOptions where
  "zeroConsumerOptions =
     \<lparr>receiveTimeout = 0, maxRetryLimit = 0, deadLetterMailbox = None,
      deadLetterDeliverTimeout = 0, handleMsgTimeout = 0\<rparr>"

fun applyOptions :: "ConsumerOption list \<Rightarrow> ConsumerOptions \<Rightarrow> ConsumerOptions outcome" where
  "applyOptions [] os = Return os"
| "applyOptions (None # rest) os = Panic"
| "applyOptions (Some opt # rest) os = applyOptions rest (opt os)"

section \<open>The consumer\<close>

text \<open>
  The cancellation token: \<open>context.WithCancel\<close> gives a context and the function that
  cancels it. Cancelling sets the context's done flag; the library documents that every
  call after the first does nothing.
\<close>

record Context =
  Done :: bool

definition background :: Context where
  "background = \<lparr>Done = False\<rparr>"

definition cancel :: "Context \<Rightarrow> Context" where
  "cancel cx = cx\<lparr>Done := True\<rparr>"

text \<open>
  The callback is user code: its answer may depend on the instant it is called at
  (which stands for the context it receives, with its timeout, and for everything else
  outside the consumer) and on the message. It receives a pointer to the message and may
  write to it: it answers with its error and with the message as it leaves it.

  The consumer struct. The callback and the client come from the caller and may be nil;
  the cancel function is called by \<open>Stop\<close> and is nil in a consumer that was not
  made by the constructor. The options and the table are allocated by the constructor.
  The type parameter is the type of the failure counts, Go's \<open>int\<close>: the functions
  of the consumer take it to be a word, of any width.
\<close>

type_synonym MsgCallback = "nat \<Rightarrow> MsgEntity \<Rightarrow> error option \<times> MsgEntity"

record 'n Consumer =
  ctx :: Context
  stop :: "(Context \<Rightarrow> Context) option"
  callbackFunc :: "MsgCallback option"
  client :: "Client option"
  topic :: string
  groupID :: string
  consumerID :: string
  failureCounts :: "MsgEntity \<rightharpoonup> 'n"
  opts :: ConsumerOptions

definition checkParam :: "'n Consumer \<Rightarrow> error option" where
  "checkParam c =
     (if callbackFunc c = None then Some ErrCallbackEmpty
      else if client c = None then Some ErrClientEmpty
      else if topic c = [] \<or> consumerID c = [] \<or> groupID c = [] then Some ErrIdentityEmpty
      else None)"

text \<open>
  The constructor returns the consumer or an error, and starts goroutines: the second
  component of the result lists the goroutines started, each running the loop of the
  consumer it names.
\<close>

datatype 'n goroutine = GoRun "'n Consumer"

definition NewConsumer ::
  "Client option \<Rightarrow> string \<Rightarrow> string \<Rightarrow> string \<Rightarrow> MsgCallback option \<Rightarrow> ConsumerOption list
     \<Rightarrow> ((error + 'w::len word Consumer) \<times> 'w word goroutine list) outcome" where
  "NewConsumer cl tp grp cid cb options =
     (let c = \<lparr>ctx = background, stop = Some cancel, callbackFunc = cb, client = cl,
               topic = tp, groupID = grp, consumerID = cid,
               failureCounts = Map.empty, opts = zeroConsumerOptions\<rparr>
      in case checkParam c of
           Some err \<Rightarrow> Return (Inl err, [])
         | None \<Rightarrow>
            (case applyOptions options (opts c) of
               Panic \<Rightarrow> Panic
             | Return os \<Rightarrow>
                 (let c' = c\<lparr>opts := repairConsumer os\<rparr> in Return (Inr c', [GoRun c']))))"

text \<open>
  \<open>Stop\<close> calls the cancel function the consumer holds; calling a nil function value
  panics. \<open>StopTimes n\<close> is \<open>n\<close> calls of \<open>Stop\<close> in a row on the same consumer.
\<close>

definition Stop :: "'n Consumer \<Rightarrow> 'n Consumer outcome" where
  "Stop c = (case stop c of None \<Rightarrow> Panic | Some f \<Rightarrow> Return (c\<lparr>ctx := f (ctx c)\<rparr>))"

fun StopTimes :: "nat \<Rightarrow> 'n Consumer \<Rightarrow> 'n Consumer outcome" where
  "StopTimes 0 c = Return c"
| "StopTimes (Suc n) c = (case Stop c of Panic \<Rightarrow> Panic | Return c' \<Rightarrow> StopTimes n c')"

section \<open>The delivery loop\<close>

text \<open>
  What the loop does to the outside is recorded in a trace: each call of the callback and
  of the mailbox, with the message handed over, the error returned and the message as
  the call left it, and each call of the acknowledgment, with the id and the error
  returned. The clock counts these calls, so that a callback, a mailbox or a connection
  pool can answer each call differently.
\<close>

datatype event =
    EvCallback MsgEntity "error option" MsgEntity
  | EvDeliver MsgEntity "error option" MsgEntity
  | EvXAck string "error option"

record world =
  clock :: nat
  trace :: "event list"

definition emit :: "world \<Rightarrow> event \<Rightarrow> world" where
  "emit w e = w\<lparr>clock := Suc (clock w), trace := trace w @ [e]\<rparr>"

text \<open>\<open>failureCounts[msg]++\<close>: a missing key reads as zero, and the sum wraps around.\<close>

definition increment ::
  "(MsgEntity \<rightharpoonup> 'w::len word) \<Rightarrow> MsgEntity \<Rightarrow> (MsgEntity \<rightharpoonup> 'w word)" where
  "increment fc msg = fc(msg \<mapsto> (case fc msg of None \<Rightarrow> 0 | Some n \<Rightarrow> n) + 1)"

text \<open>
  The messages of a batch are the pointers the read has built, each to a message of its
  own, so that a callback reaches the message it is called with and not the ones still
  to come. After the callback the handler reads the message again, through the pointer,
  for the key it counts, the id it acknowledges and the key it deletes: all three are
  taken from the message as the callback left it.
\<close>

fun handlerMsg ::
  "'w::len word Consumer \<Rightarrow> world \<Rightarrow> MsgEntity list \<Rightarrow> ('w word Consumer \<times> world) outcome" where
  "handlerMsg c w [] = Return (c, w)"
| "handlerMsg c w (msg # messages) =
     (case callbackFunc c of
        None \<Rightarrow> Panic
      | Some cb \<Rightarrow>
         (case cb (clock w) msg of
            (Some err, msg') \<Rightarrow>
              handlerMsg (c\<lparr>failureCounts := increment (failureCounts c) msg'\<rparr>)
                (emit w (EvCallback msg (Some err) msg')) messages
          | (None, msg') \<Rightarrow>
             (case XAck (client c) (Suc (clock w)) (topic c) (groupID c) (MsgID msg') of
                Panic \<Rightarrow> Panic
              | Return (Some err) \<Rightarrow>
                  handlerMsg c
                    (emit (emit w (EvCallback msg None msg')) (EvXAck (MsgID msg') (Some err)))
                    messages
              | Return None \<Rightarrow>
                  handlerMsg (c\<lparr>failureCounts := (failureCounts c)(msg' := None)\<rparr>)
                    (emit (emit w (EvCallback msg None msg')) (EvXAck (MsgID msg') None))
                    messages)))"

text \<open>
  The escalation ranges over the failure table. Go leaves the order of a map range open;
  the order the run time picks is the parameter \<open>order\<close>, a list of the table's keys
  without repetition. The range variable holds a copy of the key, and the mailbox gets a
  pointer to that variable: the id acknowledged and the key deleted are read from the
  variable as the mailbox left it. A key whose entry has been deleted before the range
  reaches it is not produced by the range; an entry that is reached has the count it had
  at the start, no step of the range writing a count. The count is compared with the
  limit as the signed integer it is.
\<close>

fun deliverDeadLetter ::
  "'w::len word Consumer \<Rightarrow> world \<Rightarrow> MsgEntity list \<Rightarrow> ('w word Consumer \<times> world) outcome" where
  "deliverDeadLetter c w [] = Return (c, w)"
| "deliverDeadLetter c w (msg # order) =
     (case failureCounts c msg of
        None \<Rightarrow> deliverDeadLetter c w order
      | Some failureCnt \<Rightarrow>
          if sint failureCnt < maxRetryLimit (opts c) then deliverDeadLetter c w order
          else
            (case deadLetterMailbox (opts c) of
               None \<Rightarrow> Panic
             | Some mailbox \<Rightarrow>
                (case Deliver mailbox (clock w) msg of
                   (delivered, msg') \<Rightarrow>
                    (let w1 = emit w (EvDeliver msg delivered msg') in
                     case XAck (client c) (clock w1) (topic c) (groupID c) (MsgID msg') of
                       Panic \<Rightarrow> Panic
                     | Return (Some err) \<Rightarrow>
                         deliverDeadLetter c (emit w1 (EvXAck (MsgID msg') (Some err))) order
                     | Return None \<Rightarrow>
                         deliverDeadLetter
                           (c\<lparr>failureCounts := (failureCounts c)(msg' := None)\<rparr>)
                           (emit w1 (EvXAck (MsgID msg') None)) order))))"

text \<open>
  A callback or a mailbox that treats the message as read-only, as the data model of the
  specification has it, leaves every message as it received it.
\<close>

definition callback_keeps :: "MsgCallback \<Rightarrow> bool" where
  "callback_keeps cb = (\<forall>t msg. snd (cb t msg) = msg)"

definition mailbox_keeps :: "DeadLetterMailbox \<Rightarrow> bool" where
  "mailbox_keeps mailbox = (\<forall>t msg. snd (Deliver mailbox t msg) = msg)"

definition range_order :: "(MsgEntity \<rightharpoonup> 'n) \<Rightarrow> MsgEntity list \<Rightarrow> bool" where
  "range_order fc order = (distinct order \<and> set order = dom fc)"

definition receive ::
  "'n Consumer \<Rightarrow> error + MsgEntity list \<Rightarrow> (error + MsgEntity list) outcome" where
  "receive c fetched =
     (case xReadGroup (client c) (groupID c) (consumerID c) (topic c) fetched of
        Panic \<Rightarrow> Panic
      | Return (Inl err) \<Rightarrow> if err \<noteq> ErrNoMsg then Return (Inl err) else Return (Inr [])
      | Return (Inr msg) \<Rightarrow> Return (Inr msg))"

definition receivePending ::
  "'n Consumer \<Rightarrow> error + MsgEntity list \<Rightarrow> (error + MsgEntity list) outcome" where
  "receivePending c fetched =
     (case xReadGroup (client c) (groupID c) (consumerID c) (topic c) fetched of
        Panic \<Rightarrow> Panic
      | Return (Inl err) \<Rightarrow> if err \<noteq> ErrNoMsg then Return (Inl err) else Return (Inr [])
      | Return (Inr pendingMsg) \<Rightarrow> Return (Inr pendingMsg))"

text \<open>
  One pass through the body of the loop of \<open>run\<close>. What the outside supplies during the
  pass: what the two reads fetch, and the order of the map range.
\<close>

record cycle =
  fetchedNew :: "error + MsgEntity list"
  rangeOrder :: "MsgEntity list"
  fetchedPending :: "error + MsgEntity list"

definition iteration ::
  "'w::len word Consumer \<Rightarrow> world \<Rightarrow> cycle \<Rightarrow> ('w word Consumer \<times> world) outcome" where
  "iteration c w cy =
     (case receive c (fetchedNew cy) of
        Panic \<Rightarrow> Panic
      | Return (Inl err) \<Rightarrow> Return (c, w)
      | Return (Inr msg) \<Rightarrow>
         (case handlerMsg c w msg of
            Panic \<Rightarrow> Panic
          | Return (c1, w1) \<Rightarrow>
             (case deliverDeadLetter c1 w1 (rangeOrder cy) of
                Panic \<Rightarrow> Panic
              | Return (c2, w2) \<Rightarrow>
                 (case receivePending c2 (fetchedPending cy) of
                    Panic \<Rightarrow> Panic
                  | Return (Inl err) \<Rightarrow> Return (c2, w2)
                  | Return (Inr pendingMsg) \<Rightarrow> handlerMsg c2 w2 pendingMsg))))"

text \<open>
  The order supplied for a pass is an order of the table as it stands when the
  escalation starts.
\<close>

definition cycle_ok :: "'w::len word Consumer \<Rightarrow> world \<Rightarrow> cycle \<Rightarrow> bool" where
  "cycle_ok c w cy =
     (case receive c (fetchedNew cy) of
        Return (Inr msg) \<Rightarrow>
         (case handlerMsg c w msg of
            Return (c1, w1) \<Rightarrow> range_order (failureCounts c1) (rangeOrder cy)
          | Panic \<Rightarrow> True)
      | _ \<Rightarrow> True)"

text \<open>
  The loop itself never returns unless the token is cancelled. It is run here for as
  many passes as the list of cycles is long: the list exhausted, the state at the top of
  the next pass is returned.
\<close>

fun run ::
  "'w::len word Consumer \<Rightarrow> world \<Rightarrow> cycle list \<Rightarrow> ('w word Consumer \<times> world) outcome" where
  "run c w [] = Return (c, w)"
| "run c w (cy # cys) =
     (if Done (ctx c) then Return (c, w)
      else
        (case iteration c w cy of
           Panic \<Rightarrow> Panic
         | Return (c', w') \<Rightarrow> run c' w' cys))"

fun cycles_ok :: "'w::len word Consumer \<Rightarrow> world \<Rightarrow> cycle list \<Rightarrow> bool" where
  "cycles_ok c w [] = True"
| "cycles_ok c w (cy # cys) =
     (Done (ctx c) \<or>
      (cycle_ok c w cy \<and>
       (case iteration c w cy of
          Panic \<Rightarrow> True
        | Return (c', w') \<Rightarrow> cycles_ok c' w' cys)))"

text \<open>
  The states of consumer and world the loop can be in between two phases: the consumer
  is constructed, batches are handled, the table is escalated, and another goroutine
  may call \<open>Stop\<close> at any moment.
\<close>

inductive reachable :: "'w::len word Consumer \<times> world \<Rightarrow> bool" where
  constructed:
    "NewConsumer cl tp grp cid cb options = Return (Inr c, gs)
       \<Longrightarrow> reachable (c, \<lparr>clock = t, trace = []\<rparr>)"
| handled:
    "reachable (c, w) \<Longrightarrow> handlerMsg c w messages = Return (c', w')
       \<Longrightarrow> reachable (c', w')"
| escalated:
    "reachable (c, w) \<Longrightarrow> range_order (failureCounts c) order
       \<Longrightarrow> deliverDeadLetter c w order = Return (c', w')
       \<Longrightarrow> reachable (c', w')"
| stopped:
    "reachable (c, w) \<Longrightarrow> Stop c = Return c' \<Longrightarrow> reachable (c', w)"

text \<open>
  What the constructor establishes and nothing afterwards changes: the cancel function, a
  callback, a client, a non-empty identity and a mailbox.
\<close>

definition well_formed :: "'n Consumer \<Rightarrow> bool" where
  "well_formed c =
     (stop c = Some cancel \<and> callbackFunc c \<noteq> None \<and> client c \<noteq> None \<and> topic c \<noteq> []
      \<and> groupID c \<noteq> [] \<and> consumerID c \<noteq> [] \<and> deadLetterMailbox (opts c) \<noteq> None)"

section \<open>Test doubles\<close>

text \<open>
  Collaborators with a fixed behaviour, and the consumer the constructor returns for them,
  for running the definitions on concrete inputs: a client whose every command is
  answered with the same integer; callbacks that always fail, always succeed, or fail on
  one message, all leaving the message alone, and one that fails and overwrites the
  message id; a mailbox that always fails, leaving the message alone, and one that
  succeeds and overwrites the message id; two messages.
\<close>

definition replyClient :: "int \<Rightarrow> Client" where
  "replyClient n = \<lparr>pool = \<lparr>GetContext = \<lambda>t. Inr \<lparr>DoInt64 = \<lambda>cmd. Inr n\<rparr>\<rparr>\<rparr>"

definition failingCallback :: MsgCallback where
  "failingCallback = (\<lambda>t msg. (Some (ErrExternal ''handler failed''), msg))"

definition succeedingCallback :: MsgCallback where
  "succeedingCallback = (\<lambda>t msg. (None, msg))"

definition renamingCallback :: MsgCallback where
  "renamingCallback =
     (\<lambda>t msg. (Some (ErrExternal ''handler failed''), msg\<lparr>MsgID := ''9-9''\<rparr>))"

definition failingMailbox :: DeadLetterMailbox where
  "failingMailbox = CustomMailbox (\<lambda>t msg. (Some (ErrExternal ''mailbox down''), msg))"

definition renamingMailbox :: DeadLetterMailbox where
  "renamingMailbox = CustomMailbox (\<lambda>t msg. (None, msg\<lparr>MsgID := ''9-9''\<rparr>))"

definition msg1 :: MsgEntity where
  "msg1 = \<lparr>MsgID = ''1-0'', Key = ''k1'', Val = ''v1''\<rparr>"

definition startedConsumer ::
  "MsgCallback \<Rightarrow> Client \<Rightarrow> int \<Rightarrow> DeadLetterMailbox \<Rightarrow> 'w::len word Consumer" where
  "startedConsumer cb cl limit mailbox =
     \<lparr>ctx = background, stop = Some cancel, callbackFunc = Some cb, client = Some cl,
      topic = ''T'', groupID = ''G'', consumerID = ''C'', failureCounts = Map.empty,
      opts = \<lparr>receiveTimeout = 0, maxRetryLimit = limit, deadLetterMailbox = Some mailbox,
              deadLetterDeliverTimeout = Second, handleMsgTimeout = Second\<rparr>\<rparr>"

definition msg2 :: MsgEntity where
  "msg2 = \<lparr>MsgID = ''2-0'', Key = ''k2'', Val = ''v2''\<rparr>"

definition pickyCallback :: MsgCallback where
  "pickyCallback =
     (\<lambda>t msg. (if msg = msg1 then Some (ErrExternal ''handler failed'') else None, msg))"

text \<open>
  Properties of a trace. The first reads a trace from its start and says that every
  acknowledgment of a message id comes after a callback that returned success for a
  message with that id (the id the message had when the callback was called, or the one
  it had when the callback returned).
\<close>

fun acked_after_success :: "string list \<Rightarrow> event list \<Rightarrow> bool" where
  "acked_after_success succeeded [] = True"
| "acked_after_success succeeded (EvCallback msg None msg' # tr) =
     acked_after_success (MsgID msg # MsgID msg' # succeeded) tr"
| "acked_after_success succeeded (EvXAck msgID r # tr) =
     (msgID \<in> set succeeded \<and> acked_after_success succeeded tr)"
| "acked_after_success succeeded (e # tr) = acked_after_success succeeded tr"

text \<open>
  The second is what the loop does keep. \<open>failures\<close> are the messages failed callbacks
  have returned with. An acknowledgment is in order when the event just before it is a
  successful callback, or a call of the mailbox, that returned with a message of the
  acknowledged id; a call of the mailbox is in order when it is for a message a failed
  callback has returned with before.
\<close>

fun failures :: "event list \<Rightarrow> MsgEntity set" where
  "failures [] = {}"
| "failures (EvCallback msg (Some err) msg' # tr) = insert msg' (failures tr)"
| "failures (e # tr) = failures tr"

fun event_ok :: "event option \<Rightarrow> MsgEntity set \<Rightarrow> event \<Rightarrow> bool" where
  "event_ok (Some (EvCallback msg None msg')) failed (EvXAck msgID r) = (MsgID msg' = msgID)"
| "event_ok (Some (EvDeliver msg r' msg')) failed (EvXAck msgID r) = (MsgID msg' = msgID)"
| "event_ok prev failed (EvXAck msgID r) = False"
| "event_ok prev failed (EvDeliver msg r msg') = (msg \<in> failed)"
| "event_ok prev failed (EvCallback msg r msg') = True"

fun trace_ok :: "event option \<Rightarrow> MsgEntity set \<Rightarrow> event list \<Rightarrow> bool" where
  "trace_ok prev failed [] = True"
| "trace_ok prev failed (e # tr) =
     (event_ok prev failed e \<and> trace_ok (Some e) (failures [e] \<union> failed) tr)"

text \<open>The number of failed callbacks in a trace.\<close>

fun failed_calls :: "event list \<Rightarrow> nat" where
  "failed_calls [] = 0"
| "failed_calls (EvCallback msg (Some err) msg' # tr) = Suc (failed_calls tr)"
| "failed_calls (e # tr) = failed_calls tr"

text \<open>
  A table is within \<open>b\<close> when each of its counts is a number from 1 to \<open>b\<close>, as a machine
  integer: the number that many increments from zero give, before any wrap-around is
  taken into account.
\<close>

definition counts_within :: "(MsgEntity \<rightharpoonup> 'w::len word) \<Rightarrow> nat \<Rightarrow> bool" where
  "counts_within fc b = (\<forall>m n. fc m = Some n \<longrightarrow> (\<exists>k. 1 \<le> k \<and> k \<le> b \<and> n = of_nat k))"

text \<open>A pass of the loop that claims the one new message and finds nothing pending.\<close>

definition oneFailingPass :: cycle where
  "oneFailingPass = \<lparr>fetchedNew = Inr [msg1], rangeOrder = [msg1], fetchedPending = Inl ErrNoMsg\<rparr>"

text \<open>
  The passes of a loop whose one message is never acknowledged: the first pass claims the
  message as new and then finds it pending, every later pass has nothing new and finds
  the message pending.
\<close>

definition stuckFirstPass :: cycle where
  "stuckFirstPass = \<lparr>fetchedNew = Inr [msg1], rangeOrder = [msg1], fetchedPending = Inr [msg1]\<rparr>"

definition stuckLaterPass :: cycle where
  "stuckLaterPass = \<lparr>fetchedNew = Inl ErrNoMsg, rangeOrder = [msg1], fetchedPending = Inr [msg1]\<rparr>"

section \<open>Basic facts\<close>

subsection \<open>Options, constructor and acknowledgment\<close>

lemma repairConsumer_mailbox:
  "deadLetterMailbox (repairConsumer os) =
     Some (case deadLetterMailbox os of None \<Rightarrow> DeadLetterLogger | Some mailbox \<Rightarrow> mailbox)"
  by (simp add: repairConsumer_def Let_def split: option.split)

lemma repairConsumer_limit:
  "maxRetryLimit (repairConsumer os) = (if maxRetryLimit os < 0 then 3 else maxRetryLimit os)"
  by (simp add: repairConsumer_def Let_def)

lemma applyOptions_returns:
  "None \<notin> set options \<Longrightarrow> \<exists>os'. applyOptions options os = Return os'"
  by (induction options os rule: applyOptions.induct) auto

lemma checkParam_None:
  "checkParam c = None \<longleftrightarrow>
     (callbackFunc c \<noteq> None \<and> client c \<noteq> None \<and> topic c \<noteq> [] \<and> consumerID c \<noteq> []
      \<and> groupID c \<noteq> [])"
  by (simp add: checkParam_def)

lemma NewConsumer_invalid:
  assumes "cb = None \<or> cl = None \<or> tp = [] \<or> grp = [] \<or> cid = []"
  shows "\<exists>err. NewConsumer cl tp grp cid cb options = Return (Inl err, [])"
  using assms by (auto simp: NewConsumer_def checkParam_def Let_def)

lemma NewConsumer_valid:
  assumes "cb \<noteq> None" and "cl \<noteq> None" and "tp \<noteq> []" and "grp \<noteq> []" and "cid \<noteq> []"
  shows "NewConsumer cl tp grp cid cb options =
          (case applyOptions options zeroConsumerOptions of
             Panic \<Rightarrow> Panic
           | Return os \<Rightarrow>
               Return (Inr \<lparr>ctx = background, stop = Some cancel, callbackFunc = cb, client = cl,
                             topic = tp, groupID = grp, consumerID = cid,
                             failureCounts = Map.empty, opts = repairConsumer os\<rparr>,
                       [GoRun \<lparr>ctx = background, stop = Some cancel, callbackFunc = cb, client = cl,
                             topic = tp, groupID = grp, consumerID = cid,
                             failureCounts = Map.empty, opts = repairConsumer os\<rparr>]))"
  using assms by (simp add: NewConsumer_def checkParam_def Let_def split: outcome.split)

lemma NewConsumer_Inr:
  assumes "NewConsumer cl tp grp cid cb options = Return (Inr c, gs)"
  shows "well_formed c \<and> failureCounts c = Map.empty \<and> ctx c = background
         \<and> callbackFunc c = cb \<and> client c = cl \<and> topic c = tp \<and> groupID c = grp
         \<and> consumerID c = cid \<and> gs = [GoRun c]"
  using assms
  by (auto simp: NewConsumer_def checkParam_def well_formed_def repairConsumer_mailbox Let_def
           split: if_splits outcome.splits)

lemma XAck_returns: "cl \<noteq> None \<Longrightarrow> \<exists>r. XAck cl cx tp grp msgID = Return r"
  by (auto simp: XAck_def split: sum.split)

lemma well_formed_frame: "well_formed c \<Longrightarrow> well_formed (c\<lparr>failureCounts := fc\<rparr>)"
  by (simp add: well_formed_def)

lemma well_formed_Stop: "well_formed c \<Longrightarrow> Stop c = Return c' \<Longrightarrow> well_formed c'"
  by (auto simp: well_formed_def Stop_def)

lemma frame_fields:
  assumes "c1 = c\<lparr>failureCounts := fc\<rparr>"
  shows "callbackFunc c1 = callbackFunc c" and "client c1 = client c" and "topic c1 = topic c"
    and "groupID c1 = groupID c" and "consumerID c1 = consumerID c" and "opts c1 = opts c"
    and "ctx c1 = ctx c" and "stop c1 = stop c"
  using assms by simp_all

subsection \<open>One message at a time\<close>

text \<open>
  Handling a batch is handling its first message and then the rest, so that a property
  kept by the handling of one message is kept by the handling of a batch. The handler
  changes nothing of the consumer but the table, it returns when callback and client are
  there, and it only adds to the trace.
\<close>

lemma handlerMsg_Cons:
  "handlerMsg c w (msg # messages) =
     (case handlerMsg c w [msg] of
        Panic \<Rightarrow> Panic
      | Return (c1, w1) \<Rightarrow> handlerMsg c1 w1 messages)"
  by (simp split: option.split outcome.split prod.split)

lemma handlerMsg_single_cases:
  assumes "handlerMsg c w [msg] = Return (c1, w1)"
  obtains
    (failed) cb err msg' where "callbackFunc c = Some cb"
      and "cb (clock w) msg = (Some err, msg')"
      and "c1 = c\<lparr>failureCounts := increment (failureCounts c) msg'\<rparr>"
      and "w1 = emit w (EvCallback msg (Some err) msg')"
  | (unacked) cb err msg' where "callbackFunc c = Some cb"
      and "cb (clock w) msg = (None, msg')"
      and "XAck (client c) (Suc (clock w)) (topic c) (groupID c) (MsgID msg') = Return (Some err)"
      and "c1 = c"
      and "w1 = emit (emit w (EvCallback msg None msg')) (EvXAck (MsgID msg') (Some err))"
  | (acked) cb msg' where "callbackFunc c = Some cb"
      and "cb (clock w) msg = (None, msg')"
      and "XAck (client c) (Suc (clock w)) (topic c) (groupID c) (MsgID msg') = Return None"
      and "c1 = c\<lparr>failureCounts := (failureCounts c)(msg' := None)\<rparr>"
      and "w1 = emit (emit w (EvCallback msg None msg')) (EvXAck (MsgID msg') None)"
proof -
  from assms obtain cb where cb: "callbackFunc c = Some cb"
    by (cases "callbackFunc c") simp_all
  obtain res msg' where r: "cb (clock w) msg = (res, msg')"
    by (cases "cb (clock w) msg")
  show thesis
  proof (cases res)
    case (Some err)
    with r have r': "cb (clock w) msg = (Some err, msg')" by simp
    with assms cb have "c1 = c\<lparr>failureCounts := increment (failureCounts c) msg'\<rparr>"
      and "w1 = emit w (EvCallback msg (Some err) msg')"
      by simp_all
    with cb r' show thesis by (rule failed)
  next
    case None
    with r have res: "cb (clock w) msg = (None, msg')" by simp
    show thesis
    proof (cases "XAck (client c) (Suc (clock w)) (topic c) (groupID c) (MsgID msg')")
      case Panic
      with assms cb res show thesis by simp
    next
      case (Return ro)
      show thesis
      proof (cases ro)
        case None
        with Return
        have x: "XAck (client c) (Suc (clock w)) (topic c) (groupID c) (MsgID msg') = Return None"
          by simp
        with assms cb res
        have "c1 = c\<lparr>failureCounts := (failureCounts c)(msg' := None)\<rparr>"
          and "w1 = emit (emit w (EvCallback msg None msg')) (EvXAck (MsgID msg') None)"
          by simp_all
        with cb res x show thesis by (rule acked)
      next
        case (Some err)
        with Return
        have x: "XAck (client c) (Suc (clock w)) (topic c) (groupID c) (MsgID msg')
                   = Return (Some err)"
          by simp
        with assms cb res
        have "c1 = c"
          and "w1 = emit (emit w (EvCallback msg None msg')) (EvXAck (MsgID msg') (Some err))"
          by simp_all
        with cb res x show thesis by (rule unacked)
      qed
    qed
  qed
qed


lemma handlerMsg_append:
  "handlerMsg c w (xs @ ys) =
     (case handlerMsg c w xs of
        Panic \<Rightarrow> Panic
      | Return (c1, w1) \<Rightarrow> handlerMsg c1 w1 ys)"
proof (induction xs arbitrary: c w)
  case Nil
  show ?case by simp
next
  case (Cons x xs)
  show ?case
  proof (cases "handlerMsg c w [x]")
    case Panic
    then show ?thesis
      using handlerMsg_Cons [of c w x "xs @ ys"] handlerMsg_Cons [of c w x xs]
      by (simp only: append_Cons outcome.case)
  next
    case (Return s)
    obtain c1 w1 where s: "s = (c1, w1)" by (cases s)
    show ?thesis
      using handlerMsg_Cons [of c w x "xs @ ys"] handlerMsg_Cons [of c w x xs] Return s
        Cons.IH [of c1 w1]
      by (simp only: append_Cons outcome.case prod.case)
  qed
qed

lemma handlerMsg_preserves:
  assumes "handlerMsg c w messages = Return (c', w')" and "P c w"
    and step: "\<And>c w msg c1 w1. P c w \<Longrightarrow> handlerMsg c w [msg] = Return (c1, w1) \<Longrightarrow> P c1 w1"
  shows "P c' w'"
  using assms(1,2)
proof (induction messages arbitrary: c w)
  case Nil
  then show ?case by simp
next
  case (Cons msg messages)
  show ?case
  proof (cases "handlerMsg c w [msg]")
    case Panic
    with Cons.prems(1) show ?thesis
      using handlerMsg_Cons [of c w msg messages] by (simp only: outcome.case outcome.distinct)
  next
    case (Return s)
    obtain c1 w1 where s: "s = (c1, w1)" by (cases s)
    have "handlerMsg c1 w1 messages = Return (c', w')"
      using Cons.prems(1) handlerMsg_Cons [of c w msg messages] Return s
      by (simp only: outcome.case prod.case)
    moreover have "P c1 w1" using step [OF Cons.prems(2)] Return s by simp
    ultimately show ?thesis by (rule Cons.IH)
  qed
qed

lemma handlerMsg_frame:
  assumes "handlerMsg c w messages = Return (c', w')"
  shows "c' = c\<lparr>failureCounts := failureCounts c'\<rparr>"
proof -
  have "(\<lambda>d v. \<exists>fc. d = c\<lparr>failureCounts := fc\<rparr>) c' w'"
  proof (rule handlerMsg_preserves [OF assms])
    show "\<exists>fc. c = c\<lparr>failureCounts := fc\<rparr>"
      by (rule exI [of _ "failureCounts c"]) simp
  next
    fix d v msg d1 v1
    assume "\<exists>fc. d = c\<lparr>failureCounts := fc\<rparr>" and "handlerMsg d v [msg] = Return (d1, v1)"
    from this(2) this(1) show "\<exists>fc. d1 = c\<lparr>failureCounts := fc\<rparr>"
      by (cases rule: handlerMsg_single_cases) auto
  qed
  then obtain fc where "c' = c\<lparr>failureCounts := fc\<rparr>" by blast
  then show ?thesis by simp
qed

lemma handlerMsg_returns:
  assumes "well_formed c"
  shows "\<exists>c' w'. handlerMsg c w messages = Return (c', w') \<and> well_formed c'"
  using assms
proof (induction messages arbitrary: c w)
  case Nil
  then show ?case by simp
next
  case (Cons msg messages)
  obtain cb where cb: "callbackFunc c = Some cb"
    using Cons.prems by (auto simp: well_formed_def)
  obtain res msg' where cbr: "cb (clock w) msg = (res, msg')"
    by (cases "cb (clock w) msg")
  have "client c \<noteq> None" using Cons.prems by (simp add: well_formed_def)
  from XAck_returns [OF this]
  obtain r where r: "XAck (client c) (Suc (clock w)) (topic c) (groupID c) (MsgID msg') = Return r"
    by blast
  have "\<exists>c1 w1. handlerMsg c w [msg] = Return (c1, w1) \<and> well_formed c1"
    using cb cbr r Cons.prems by (cases res; cases r) (simp_all add: well_formed_def)
  then obtain c1 w1 where one: "handlerMsg c w [msg] = Return (c1, w1)" and "well_formed c1"
    by blast
  from Cons.IH [OF this(2), of w1] one show ?case
    using handlerMsg_Cons [of c w msg messages] by (simp only: outcome.case prod.case)
qed

lemma handlerMsg_trace_extends:
  assumes "handlerMsg c w messages = Return (c', w')"
  shows "\<exists>tr. trace w' = trace w @ tr"
proof -
  have "(\<lambda>d v. \<exists>tr. trace v = trace w @ tr) c' w'"
  proof (rule handlerMsg_preserves [OF assms])
    show "\<exists>tr. trace w = trace w @ tr" by simp
  next
    fix d v msg d1 v1
    assume "\<exists>tr. trace v = trace w @ tr" and "handlerMsg d v [msg] = Return (d1, v1)"
    from this(2) this(1) show "\<exists>tr. trace v1 = trace w @ tr"
      by (cases rule: handlerMsg_single_cases) (auto simp: emit_def)
  qed
  then show ?thesis .
qed

lemma handlerMsg_removed:
  assumes "handlerMsg c w messages = Return (c', w')"
    and "failureCounts c m \<noteq> None" and "failureCounts c' m = None"
  shows "\<exists>tr1 tr2 msg0.
           trace w' = trace w @ tr1 @ [EvCallback msg0 None m, EvXAck (MsgID m) None] @ tr2"
  using assms
proof (induction messages arbitrary: c w)
  case Nil
  then show ?case by simp
next
  case (Cons x xs)
  show ?case
  proof (cases "handlerMsg c w [x]")
    case Panic
    with Cons.prems(1) show ?thesis
      using handlerMsg_Cons [of c w x xs] by (simp only: outcome.case outcome.distinct)
  next
    case (Return s)
    obtain c1 w1 where s: "s = (c1, w1)" by (cases s)
    with Return have one: "handlerMsg c w [x] = Return (c1, w1)" by simp
    have rest: "handlerMsg c1 w1 xs = Return (c', w')"
      using Cons.prems(1) handlerMsg_Cons [of c w x xs] one
      by (simp only: outcome.case prod.case)
    from handlerMsg_trace_extends [OF rest] obtain tr2 where t2: "trace w' = trace w1 @ tr2" ..
    from handlerMsg_trace_extends [OF one] obtain tr0 where t0: "trace w1 = trace w @ tr0" ..
    show ?thesis
    proof (cases "failureCounts c1 m")
      case None
      from one have "trace w1 = trace w @ [EvCallback x None m, EvXAck (MsgID m) None]"
      proof (cases rule: handlerMsg_single_cases)
        case (failed cb err msg')
        with None Cons.prems(2) show ?thesis by (simp add: increment_def split: if_splits)
      next
        case (unacked cb err msg')
        with None Cons.prems(2) show ?thesis by simp
      next
        case (acked cb msg')
        with None Cons.prems(2) have "msg' = m" by (simp split: if_splits)
        with acked show ?thesis by (simp add: emit_def)
      qed
      with t2 have "trace w' = trace w @ [] @ [EvCallback x None m, EvXAck (MsgID m) None] @ tr2"
        by simp
      then show ?thesis by blast
    next
      case (Some k)
      then have "failureCounts c1 m \<noteq> None" by simp
      from Cons.IH [OF rest this Cons.prems(3)]
      obtain tr1 tr3 msg0 where
        "trace w' = trace w1 @ tr1 @ [EvCallback msg0 None m, EvXAck (MsgID m) None] @ tr3"
        by blast
      with t0 have
        "trace w' = trace w @ (tr0 @ tr1) @ [EvCallback msg0 None m, EvXAck (MsgID m) None] @ tr3"
        by simp
      then show ?thesis by blast
    qed
  qed
qed

subsection \<open>One table entry at a time\<close>

text \<open>
  The same for the escalation, one key of the range at a time. With a mailbox that leaves
  the message it is handed as it is, a key that is not in the range keeps its entry, and a
  key of a range without repetition is reached exactly once.
\<close>

lemma deliverDeadLetter_Cons:
  "deliverDeadLetter c w (msg # order) =
     (case deliverDeadLetter c w [msg] of
        Panic \<Rightarrow> Panic
      | Return (c1, w1) \<Rightarrow> deliverDeadLetter c1 w1 order)"
  by (simp add: Let_def split: option.split outcome.split prod.split)

lemma deliverDeadLetter_single_cases:
  assumes "deliverDeadLetter c w [msg] = Return (c1, w1)"
  obtains
    (absent) "failureCounts c msg = None" and "c1 = c" and "w1 = w"
  | (below) cnt where "failureCounts c msg = Some cnt"
      and "sint cnt < maxRetryLimit (opts c)" and "c1 = c" and "w1 = w"
  | (unacked) cnt mailbox delivered msg' err where "failureCounts c msg = Some cnt"
      and "\<not> sint cnt < maxRetryLimit (opts c)" and "deadLetterMailbox (opts c) = Some mailbox"
      and "Deliver mailbox (clock w) msg = (delivered, msg')"
      and "XAck (client c) (Suc (clock w)) (topic c) (groupID c) (MsgID msg') = Return (Some err)"
      and "c1 = c"
      and "w1 = emit (emit w (EvDeliver msg delivered msg')) (EvXAck (MsgID msg') (Some err))"
  | (acked) cnt mailbox delivered msg' where "failureCounts c msg = Some cnt"
      and "\<not> sint cnt < maxRetryLimit (opts c)" and "deadLetterMailbox (opts c) = Some mailbox"
      and "Deliver mailbox (clock w) msg = (delivered, msg')"
      and "XAck (client c) (Suc (clock w)) (topic c) (groupID c) (MsgID msg') = Return None"
      and "c1 = c\<lparr>failureCounts := (failureCounts c)(msg' := None)\<rparr>"
      and "w1 = emit (emit w (EvDeliver msg delivered msg')) (EvXAck (MsgID msg') None)"
proof (cases "failureCounts c msg")
  case None
  with assms have "c1 = c" and "w1 = w" by simp_all
  with None show thesis by (rule absent)
next
  case (Some cnt)
  show thesis
  proof (cases "sint cnt < maxRetryLimit (opts c)")
    case True
    with Some assms have "c1 = c" and "w1 = w" by simp_all
    with Some True show thesis by (rule below)
  next
    case False
    from Some False assms obtain mailbox where mb: "deadLetterMailbox (opts c) = Some mailbox"
      by (cases "deadLetterMailbox (opts c)") simp_all
    obtain delivered msg' where dl: "Deliver mailbox (clock w) msg = (delivered, msg')"
      by (cases "Deliver mailbox (clock w) msg")
    show thesis
    proof (cases "XAck (client c) (Suc (clock w)) (topic c) (groupID c) (MsgID msg')")
      case Panic
      with Some False mb dl assms show thesis by (simp add: Let_def emit_def)
    next
      case (Return r)
      show thesis
      proof (cases r)
        case None
        with Return
        have x: "XAck (client c) (Suc (clock w)) (topic c) (groupID c) (MsgID msg') = Return None"
          by simp
        with Some False mb dl assms
        have "c1 = c\<lparr>failureCounts := (failureCounts c)(msg' := None)\<rparr>"
          and "w1 = emit (emit w (EvDeliver msg delivered msg')) (EvXAck (MsgID msg') None)"
          by (simp_all add: Let_def emit_def)
        with Some False mb dl x show thesis by (rule acked)
      next
        case (Some err)
        with Return
        have x: "XAck (client c) (Suc (clock w)) (topic c) (groupID c) (MsgID msg')
                   = Return (Some err)"
          by simp
        with \<open>failureCounts c msg = Some cnt\<close> False mb dl assms
        have "c1 = c"
          and "w1 = emit (emit w (EvDeliver msg delivered msg')) (EvXAck (MsgID msg') (Some err))"
          by (simp_all add: Let_def emit_def)
        with \<open>failureCounts c msg = Some cnt\<close> False mb dl x show thesis by (rule unacked)
      qed
    qed
  qed
qed

lemma deliverDeadLetter_append:
  "deliverDeadLetter c w (xs @ ys) =
     (case deliverDeadLetter c w xs of
        Panic \<Rightarrow> Panic
      | Return (c1, w1) \<Rightarrow> deliverDeadLetter c1 w1 ys)"
proof (induction xs arbitrary: c w)
  case Nil
  show ?case by simp
next
  case (Cons x xs)
  show ?case
  proof (cases "deliverDeadLetter c w [x]")
    case Panic
    then show ?thesis
      using deliverDeadLetter_Cons [of c w x "xs @ ys"] deliverDeadLetter_Cons [of c w x xs]
      by (simp only: append_Cons outcome.case)
  next
    case (Return s)
    obtain c1 w1 where s: "s = (c1, w1)" by (cases s)
    show ?thesis
      using deliverDeadLetter_Cons [of c w x "xs @ ys"] deliverDeadLetter_Cons [of c w x xs]
        Return s Cons.IH [of c1 w1]
      by (simp only: append_Cons outcome.case prod.case)
  qed
qed

lemma deliverDeadLetter_preserves:
  assumes "deliverDeadLetter c w order = Return (c', w')" and "P c w"
    and step: "\<And>c w msg c1 w1. P c w \<Longrightarrow> msg \<in> set order
                 \<Longrightarrow> deliverDeadLetter c w [msg] = Return (c1, w1) \<Longrightarrow> P c1 w1"
  shows "P c' w'"
  using assms
proof (induction order arbitrary: c w)
  case Nil
  then show ?case by simp
next
  case (Cons msg order)
  show ?case
  proof (cases "deliverDeadLetter c w [msg]")
    case Panic
    with Cons.prems(1) show ?thesis
      using deliverDeadLetter_Cons [of c w msg order]
      by (simp only: outcome.case outcome.distinct)
  next
    case (Return s)
    obtain c1 w1 where s: "s = (c1, w1)" by (cases s)
    have "deliverDeadLetter c1 w1 order = Return (c', w')"
      using Cons.prems(1) deliverDeadLetter_Cons [of c w msg order] Return s
      by (simp only: outcome.case prod.case)
    moreover have "P c1 w1" using Cons.prems(3) [OF Cons.prems(2), of msg c1 w1] Return s by simp
    moreover have "\<And>c w m c1 w1. P c w \<Longrightarrow> m \<in> set order
                 \<Longrightarrow> deliverDeadLetter c w [m] = Return (c1, w1) \<Longrightarrow> P c1 w1"
      using Cons.prems(3) by (metis list.set_intros(2))
    ultimately show ?thesis by (rule Cons.IH)
  qed
qed

lemma deliverDeadLetter_frame:
  assumes "deliverDeadLetter c w order = Return (c', w')"
  shows "c' = c\<lparr>failureCounts := failureCounts c'\<rparr>"
proof -
  have "(\<lambda>d v. \<exists>fc. d = c\<lparr>failureCounts := fc\<rparr>) c' w'"
  proof (rule deliverDeadLetter_preserves [OF assms])
    show "\<exists>fc. c = c\<lparr>failureCounts := fc\<rparr>"
      by (rule exI [of _ "failureCounts c"]) simp
  next
    fix d v msg d1 v1
    assume "\<exists>fc. d = c\<lparr>failureCounts := fc\<rparr>"
      and "deliverDeadLetter d v [msg] = Return (d1, v1)"
    from this(2) this(1) show "\<exists>fc. d1 = c\<lparr>failureCounts := fc\<rparr>"
      by (cases rule: deliverDeadLetter_single_cases) auto
  qed
  then obtain fc where "c' = c\<lparr>failureCounts := fc\<rparr>" by blast
  then show ?thesis by simp
qed

lemma deliverDeadLetter_returns:
  assumes "well_formed c"
  shows "\<exists>c' w'. deliverDeadLetter c w order = Return (c', w') \<and> well_formed c'"
  using assms
proof (induction order arbitrary: c w)
  case Nil
  then show ?case by simp
next
  case (Cons msg order)
  obtain mailbox where mb: "deadLetterMailbox (opts c) = Some mailbox"
    using Cons.prems by (auto simp: well_formed_def)
  have "client c \<noteq> None" using Cons.prems by (simp add: well_formed_def)
  obtain delivered msg' where dl: "Deliver mailbox (clock w) msg = (delivered, msg')"
    by (cases "Deliver mailbox (clock w) msg")
  from XAck_returns [OF \<open>client c \<noteq> None\<close>]
  obtain r where r: "XAck (client c) (Suc (clock w)) (topic c) (groupID c) (MsgID msg') = Return r"
    by blast
  have "\<exists>c1 w1. deliverDeadLetter c w [msg] = Return (c1, w1) \<and> well_formed c1"
    using mb dl r Cons.prems
    by (cases "failureCounts c msg"; cases r) (simp_all add: well_formed_def Let_def emit_def)
  then obtain c1 w1 where one: "deliverDeadLetter c w [msg] = Return (c1, w1)"
    and "well_formed c1"
    by blast
  from Cons.IH [OF this(2), of w1] one show ?case
    using deliverDeadLetter_Cons [of c w msg order] by (simp only: outcome.case prod.case)
qed

lemma deliverDeadLetter_untouched:
  assumes "deliverDeadLetter c w order = Return (c', w')" and "msg \<notin> set order"
    and "deadLetterMailbox (opts c) = Some mailbox" and "mailbox_keeps mailbox"
  shows "failureCounts c' msg = failureCounts c msg"
proof -
  have "(\<lambda>d v. opts d = opts c \<and> failureCounts d msg = failureCounts c msg) c' w'"
  proof (rule deliverDeadLetter_preserves [OF assms(1)])
    show "opts c = opts c \<and> failureCounts c msg = failureCounts c msg" by simp
  next
    fix d v m d1 v1
    assume inv: "opts d = opts c \<and> failureCounts d msg = failureCounts c msg"
      and m: "m \<in> set order"
      and one: "deliverDeadLetter d v [m] = Return (d1, v1)"
    from one show "opts d1 = opts c \<and> failureCounts d1 msg = failureCounts c msg"
    proof (cases rule: deliverDeadLetter_single_cases)
      case absent
      with inv show ?thesis by simp
    next
      case (below cnt)
      with inv show ?thesis by simp
    next
      case (unacked cnt mailbox' delivered msg' err)
      with inv show ?thesis by simp
    next
      case (acked cnt mailbox' delivered msg')
      from acked(3) inv assms(3) have "mailbox' = mailbox" by simp
      with acked(4) assms(4) have "msg' = m" by (auto simp: mailbox_keeps_def dest: arg_cong [of _ _ snd])
      with m assms(2) have "msg' \<noteq> msg" by auto
      with acked inv show ?thesis by simp
    qed
  qed
  then show ?thesis by simp
qed

lemma deliverDeadLetter_trace_extends:
  assumes "deliverDeadLetter c w order = Return (c', w')"
  shows "\<exists>tr. trace w' = trace w @ tr"
proof -
  have "(\<lambda>d v. \<exists>tr. trace v = trace w @ tr) c' w'"
  proof (rule deliverDeadLetter_preserves [OF assms])
    show "\<exists>tr. trace w = trace w @ tr" by simp
  next
    fix d v msg d1 v1
    assume "\<exists>tr. trace v = trace w @ tr" and "deliverDeadLetter d v [msg] = Return (d1, v1)"
    from this(2) this(1) show "\<exists>tr. trace v1 = trace w @ tr"
      by (cases rule: deliverDeadLetter_single_cases) (auto simp: emit_def)
  qed
  then show ?thesis .
qed

lemma deliverDeadLetter_removed:
  assumes "deliverDeadLetter c w order = Return (c', w')"
    and "failureCounts c m \<noteq> None" and "failureCounts c' m = None"
  shows "\<exists>tr1 tr2 msg0 r.
           trace w' = trace w @ tr1 @ [EvDeliver msg0 r m, EvXAck (MsgID m) None] @ tr2"
  using assms
proof (induction order arbitrary: c w)
  case Nil
  then show ?case by simp
next
  case (Cons x xs)
  show ?case
  proof (cases "deliverDeadLetter c w [x]")
    case Panic
    with Cons.prems(1) show ?thesis
      using deliverDeadLetter_Cons [of c w x xs] by (simp only: outcome.case outcome.distinct)
  next
    case (Return s)
    obtain c1 w1 where s: "s = (c1, w1)" by (cases s)
    with Return have one: "deliverDeadLetter c w [x] = Return (c1, w1)" by simp
    have rest: "deliverDeadLetter c1 w1 xs = Return (c', w')"
      using Cons.prems(1) deliverDeadLetter_Cons [of c w x xs] one
      by (simp only: outcome.case prod.case)
    from deliverDeadLetter_trace_extends [OF rest]
    obtain tr2 where t2: "trace w' = trace w1 @ tr2" ..
    from deliverDeadLetter_trace_extends [OF one]
    obtain tr0 where t0: "trace w1 = trace w @ tr0" ..
    show ?thesis
    proof (cases "failureCounts c1 m")
      case None
      from one have "\<exists>r. trace w1 = trace w @ [EvDeliver x r m, EvXAck (MsgID m) None]"
      proof (cases rule: deliverDeadLetter_single_cases)
        case absent
        with None Cons.prems(2) show ?thesis by simp
      next
        case (below cnt)
        with None Cons.prems(2) show ?thesis by simp
      next
        case (unacked cnt mailbox delivered msg' err)
        with None Cons.prems(2) show ?thesis by simp
      next
        case (acked cnt mailbox delivered msg')
        with None Cons.prems(2) have "msg' = m" by (simp split: if_splits)
        with acked show ?thesis by (simp add: emit_def)
      qed
      then obtain r where "trace w1 = trace w @ [EvDeliver x r m, EvXAck (MsgID m) None]" ..
      with t2 have "trace w' = trace w @ [] @ [EvDeliver x r m, EvXAck (MsgID m) None] @ tr2"
        by simp
      then show ?thesis by blast
    next
      case (Some k)
      then have "failureCounts c1 m \<noteq> None" by simp
      from Cons.IH [OF rest this Cons.prems(3)]
      obtain tr1 tr3 msg0 r where
        "trace w' = trace w1 @ tr1 @ [EvDeliver msg0 r m, EvXAck (MsgID m) None] @ tr3"
        by blast
      with t0 have
        "trace w' = trace w @ (tr0 @ tr1) @ [EvDeliver msg0 r m, EvXAck (MsgID m) None] @ tr3"
        by simp
      then show ?thesis by blast
    qed
  qed
qed

lemma mailbox_keeps_Deliver:
  assumes "mailbox_keeps mailbox" and "Deliver mailbox t msg = (delivered, msg')"
  shows "msg' = msg" and "delivered = fst (Deliver mailbox t msg)"
proof -
  from assms(1) have "snd (Deliver mailbox t msg) = msg" by (simp add: mailbox_keeps_def)
  with assms(2) show "msg' = msg" by simp
  from assms(2) show "delivered = fst (Deliver mailbox t msg)" by simp
qed

lemma deliverDeadLetter_at_entry:
  assumes "well_formed c" and "range_order (failureCounts c) order"
    and "failureCounts c msg = Some cnt"
    and "deadLetterMailbox (opts c) = Some mailbox" and "mailbox_keeps mailbox"
  shows "\<exists>pre post c1 w1 c2 w2 c' w'.
       order = pre @ msg # post
     \<and> deliverDeadLetter c w pre = Return (c1, w1)
     \<and> deliverDeadLetter c1 w1 [msg] = Return (c2, w2)
     \<and> deliverDeadLetter c2 w2 post = Return (c', w')
     \<and> deliverDeadLetter c w order = Return (c', w')
     \<and> failureCounts c1 msg = Some cnt
     \<and> failureCounts c' msg = failureCounts c2 msg
     \<and> (if sint cnt < maxRetryLimit (opts c) then c2 = c1 \<and> w2 = w1
         else
          (case XAck (client c) (Suc (clock w1)) (topic c) (groupID c) (MsgID msg) of
             Panic \<Rightarrow> False
           | Return (Some err) \<Rightarrow>
               failureCounts c2 = failureCounts c1
               \<and> trace w2 = trace w1 @ [EvDeliver msg (fst (Deliver mailbox (clock w1) msg)) msg,
                                         EvXAck (MsgID msg) (Some err)]
           | Return None \<Rightarrow>
               failureCounts c2 = (failureCounts c1)(msg := None)
               \<and> trace w2 = trace w1 @ [EvDeliver msg (fst (Deliver mailbox (clock w1) msg)) msg,
                                         EvXAck (MsgID msg) None]))"
proof -
  note mb = assms(4)
  from assms(2,3) have "msg \<in> set order" and d: "distinct order"
    by (auto simp: range_order_def)
  then obtain pre post where split: "order = pre @ msg # post"
    by (auto dest: split_list)
  with d have npre: "msg \<notin> set pre" and npost: "msg \<notin> set post" by auto
  from deliverDeadLetter_returns [OF assms(1), of w pre]
  obtain c1 w1 where p: "deliverDeadLetter c w pre = Return (c1, w1)" and wf1: "well_formed c1"
    by blast
  from deliverDeadLetter_returns [OF wf1, of w1 "[msg]"]
  obtain c2 w2 where one: "deliverDeadLetter c1 w1 [msg] = Return (c2, w2)"
    and wf2: "well_formed c2"
    by blast
  from deliverDeadLetter_returns [OF wf2, of w2 post]
  obtain c' w' where q: "deliverDeadLetter c2 w2 post = Return (c', w')"
    by blast
  have "deliverDeadLetter c1 w1 (msg # post) = Return (c', w')"
    using deliverDeadLetter_Cons [of c1 w1 msg post] one q
    by (simp only: outcome.case prod.case)
  then have whole: "deliverDeadLetter c w order = Return (c', w')"
    using deliverDeadLetter_append [of c w pre "msg # post"] p split
    by (simp only: outcome.case prod.case)
  note fr = frame_fields [OF deliverDeadLetter_frame [OF p]]
  note fr1 = frame_fields [OF deliverDeadLetter_frame [OF one]]
  from fr fr1 mb have mb2: "deadLetterMailbox (opts c2) = Some mailbox" by simp
  from deliverDeadLetter_untouched [OF p npre mb assms(5)] assms(3)
  have at1: "failureCounts c1 msg = Some cnt" by simp
  from deliverDeadLetter_untouched [OF q npost mb2 assms(5)]
  have at2: "failureCounts c' msg = failureCounts c2 msg" .
  have rel: "(if sint cnt < maxRetryLimit (opts c) then c2 = c1 \<and> w2 = w1
         else
          (case XAck (client c) (Suc (clock w1)) (topic c) (groupID c) (MsgID msg) of
             Panic \<Rightarrow> False
           | Return (Some err) \<Rightarrow>
               failureCounts c2 = failureCounts c1
               \<and> trace w2 = trace w1 @ [EvDeliver msg (fst (Deliver mailbox (clock w1) msg)) msg,
                                         EvXAck (MsgID msg) (Some err)]
           | Return None \<Rightarrow>
               failureCounts c2 = (failureCounts c1)(msg := None)
               \<and> trace w2 = trace w1 @ [EvDeliver msg (fst (Deliver mailbox (clock w1) msg)) msg,
                                         EvXAck (MsgID msg) None]))"
    using one
  proof (cases rule: deliverDeadLetter_single_cases)
    case absent
    with at1 show ?thesis by simp
  next
    case (below n)
    with at1 fr show ?thesis by simp
  next
    case (unacked n mailbox' delivered msg' err)
    from unacked(3) fr mb have same: "mailbox' = mailbox" by simp
    from mailbox_keeps_Deliver [OF assms(5) unacked(4) [unfolded same]]
    have "msg' = msg" and "delivered = fst (Deliver mailbox (clock w1) msg)" .
    with unacked at1 fr show ?thesis by (simp add: emit_def)
  next
    case (acked n mailbox' delivered msg')
    from acked(3) fr mb have same: "mailbox' = mailbox" by simp
    from mailbox_keeps_Deliver [OF assms(5) acked(4) [unfolded same]]
    have "msg' = msg" and "delivered = fst (Deliver mailbox (clock w1) msg)" .
    with acked at1 fr show ?thesis by (simp add: emit_def)
  qed
  from split p one q whole at1 at2 rel show ?thesis by blast
qed

lemma deliverDeadLetter_delivers:
  assumes wf: "well_formed c" and ro: "range_order (failureCounts c) order"
    and at: "failureCounts c msg = Some cnt" and lim: "maxRetryLimit (opts c) \<le> sint cnt"
    and mb: "deadLetterMailbox (opts c) = Some mailbox" and keeps: "mailbox_keeps mailbox"
  shows "\<exists>c' w' tr1 tr2 r. deliverDeadLetter c w order = Return (c', w')
           \<and> trace w' = trace w @ tr1 @ [EvDeliver msg r msg] @ tr2"
proof -
  from deliverDeadLetter_at_entry [OF wf ro at mb keeps, of w]
  obtain pre post c1 w1 c2 w2 c' w' where
    p: "deliverDeadLetter c w pre = Return (c1, w1)"
    and q: "deliverDeadLetter c2 w2 post = Return (c', w')"
    and whole: "deliverDeadLetter c w order = Return (c', w')"
    and rel: "(if sint cnt < maxRetryLimit (opts c) then c2 = c1 \<and> w2 = w1
         else
          (case XAck (client c) (Suc (clock w1)) (topic c) (groupID c) (MsgID msg) of
             Panic \<Rightarrow> False
           | Return (Some err) \<Rightarrow>
               failureCounts c2 = failureCounts c1
               \<and> trace w2 = trace w1 @ [EvDeliver msg (fst (Deliver mailbox (clock w1) msg)) msg,
                                         EvXAck (MsgID msg) (Some err)]
           | Return None \<Rightarrow>
               failureCounts c2 = (failureCounts c1)(msg := None)
               \<and> trace w2 = trace w1 @ [EvDeliver msg (fst (Deliver mailbox (clock w1) msg)) msg,
                                         EvXAck (MsgID msg) None]))"
    by blast
  let ?r = "fst (Deliver mailbox (clock w1) msg)"
  from lim rel have "\<exists>a. trace w2 = trace w1 @ [EvDeliver msg ?r msg, EvXAck (MsgID msg) a]"
    by (auto split: outcome.splits option.splits)
  then obtain a where t: "trace w2 = trace w1 @ [EvDeliver msg ?r msg, EvXAck (MsgID msg) a]" ..
  from deliverDeadLetter_trace_extends [OF p] obtain tr1 where t1: "trace w1 = trace w @ tr1" ..
  from deliverDeadLetter_trace_extends [OF q] obtain tr2 where t2: "trace w' = trace w2 @ tr2" ..
  from t t1 t2 have "trace w' = trace w @ tr1 @ [EvDeliver msg ?r msg]
                        @ (EvXAck (MsgID msg) a # tr2)"
    by simp
  with whole show ?thesis by blast
qed

subsection \<open>The loop stays within the reachable states\<close>

text \<open>
  Every pass of the loop is made of the steps of \<open>reachable\<close>, so that what holds in
  all reachable states holds at the top of every pass of \<open>run\<close>.
\<close>

lemma reachable_well_formed: "reachable s \<Longrightarrow> well_formed (fst s)"
proof (induction rule: reachable.induct)
  case (constructed cl tp grp cid cb options c gs t)
  from NewConsumer_Inr [OF constructed.hyps] show ?case by simp
next
  case (handled c w messages c' w')
  from handlerMsg_frame [OF handled.hyps(2)] handled.IH show ?case
    using well_formed_frame [of c "failureCounts c'"] by simp
next
  case (escalated c w order c' w')
  from deliverDeadLetter_frame [OF escalated.hyps(3)] escalated.IH show ?case
    using well_formed_frame [of c "failureCounts c'"] by simp
next
  case (stopped c w c')
  then show ?case using well_formed_Stop [of c c'] by simp
qed

lemma iteration_reachable:
  assumes "reachable (c, w)" and "cycle_ok c w cy" and "iteration c w cy = Return (c', w')"
  shows "reachable (c', w')"
proof (cases "receive c (fetchedNew cy)")
  case Panic
  with assms(3) show ?thesis by (simp add: iteration_def)
next
  case (Return got)
  show ?thesis
  proof (cases got)
    case (Inl err)
    with Return assms(3) assms(1) show ?thesis by (simp add: iteration_def)
  next
    case (Inr msg)
    show ?thesis
    proof (cases "handlerMsg c w msg")
      case Panic
      with Return Inr assms(3) show ?thesis by (simp add: iteration_def)
    next
      case h: (Return s1)
      obtain c1 w1 where s1: "s1 = (c1, w1)" by (cases s1)
      from h s1 have r1: "reachable (c1, w1)"
        using reachable.handled [OF assms(1)] by simp
      from assms(2) Return Inr h s1 have ro: "range_order (failureCounts c1) (rangeOrder cy)"
        by (simp add: cycle_ok_def)
      show ?thesis
      proof (cases "deliverDeadLetter c1 w1 (rangeOrder cy)")
        case Panic
        with Return Inr h s1 assms(3) show ?thesis by (simp add: iteration_def)
      next
        case d: (Return s2)
        obtain c2 w2 where s2: "s2 = (c2, w2)" by (cases s2)
        from d s2 have r2: "reachable (c2, w2)"
          using reachable.escalated [OF r1 ro] by simp
        show ?thesis
        proof (cases "receivePending c2 (fetchedPending cy)")
          case Panic
          with Return Inr h s1 d s2 assms(3) show ?thesis by (simp add: iteration_def)
        next
          case p: (Return got2)
          show ?thesis
          proof (cases got2)
            case (Inl err)
            with Return Inr h s1 d s2 p assms(3) r2 show ?thesis by (simp add: iteration_def)
          next
            case pm: (Inr pendingMsg)
            with Return Inr h s1 d s2 p assms(3)
            have "handlerMsg c2 w2 pendingMsg = Return (c', w')" by (simp add: iteration_def)
            with r2 show ?thesis by (rule reachable.handled)
          qed
        qed
      qed
    qed
  qed
qed

lemma run_reachable:
  assumes "reachable (c, w)" and "cycles_ok c w cys" and "run c w cys = Return (c', w')"
  shows "reachable (c', w')"
  using assms
proof (induction cys arbitrary: c w)
  case Nil
  then show ?case by simp
next
  case (Cons cy cys)
  show ?case
  proof (cases "Done (ctx c)")
    case True
    with Cons.prems show ?thesis by simp
  next
    case False
    show ?thesis
    proof (cases "iteration c w cy")
      case Panic
      with False Cons.prems(3) show ?thesis by simp
    next
      case (Return s)
      obtain c1 w1 where s: "s = (c1, w1)" by (cases s)
      from False Cons.prems(2) have ok: "cycle_ok c w cy" by simp
      from iteration_reachable [OF Cons.prems(1) ok] Return s have "reachable (c1, w1)" by simp
      moreover from False Cons.prems(2) Return s have "cycles_ok c1 w1 cys" by simp
      moreover from False Cons.prems(3) Return s have "run c1 w1 cys = Return (c', w')" by simp
      ultimately show ?thesis by (rule Cons.IH)
    qed
  qed
qed

subsection \<open>Invariants of the reachable states\<close>

text \<open>
  Two invariants. Each count of the table is the machine integer of a number between 1
  and the number of callbacks that have failed so far, so that it is at least 1 as long
  as that number fits the integer type. And the trace is in order, with every key of the
  table among the messages failed callbacks have returned with.
\<close>

lemma sint_of_nat_small:
  assumes "k < 2 ^ (LENGTH('w::len) - 1)"
  shows "sint (of_nat k :: 'w word) = int k"
proof -
  from assms have "int k < int (2 ^ (LENGTH('w) - 1))" by (simp only: of_nat_less_iff)
  then have "int k < 2 ^ (LENGTH('w) - 1)" by simp
  moreover have "- (2 ^ (LENGTH('w) - 1)) \<le> (0::int)" by simp
  then have "- (2 ^ (LENGTH('w) - 1)) \<le> int k" by (rule order_trans) simp
  ultimately have "signed_take_bit (LENGTH('w) - 1) (int k) = int k"
    by (rule signed_take_bit_int_eq_self [rotated])
  moreover have "(of_nat k :: 'w word) = word_of_int (int k)" by simp
  ultimately show ?thesis by (simp only: sint_sbintrunc')
qed

lemma failed_calls_append: "failed_calls (xs @ ys) = failed_calls xs + failed_calls ys"
  by (induction xs rule: failed_calls.induct) simp_all

lemma counts_within_mono: "counts_within fc b \<Longrightarrow> b \<le> b' \<Longrightarrow> counts_within fc b'"
  unfolding counts_within_def by (meson order_trans)

lemma counts_within_delete: "counts_within fc b \<Longrightarrow> counts_within (fc(m := None)) b"
  unfolding counts_within_def by (simp split: if_splits)

lemma counts_within_increment:
  assumes "counts_within fc b"
  shows "counts_within (increment fc msg) (Suc b)"
  unfolding counts_within_def
proof (intro allI impI)
  fix m n
  assume at: "increment fc msg m = Some n"
  show "\<exists>k. 1 \<le> k \<and> k \<le> Suc b \<and> n = of_nat k"
  proof (cases "m = msg")
    case False
    with at have "fc m = Some n" by (simp add: increment_def)
    with assms obtain k where "1 \<le> k" and "k \<le> b" and "n = of_nat k"
      unfolding counts_within_def by blast
    then have "1 \<le> k \<and> k \<le> Suc b \<and> n = of_nat k" by simp
    then show ?thesis ..
  next
    case True
    show ?thesis
    proof (cases "fc msg")
      case None
      with True at have "n = of_nat 1" by (simp add: increment_def)
      then have "1 \<le> (1::nat) \<and> 1 \<le> Suc b \<and> n = of_nat 1" by simp
      then show ?thesis ..
    next
      case (Some n0)
      with assms obtain k where "1 \<le> k" and "k \<le> b" and "n0 = of_nat k"
        unfolding counts_within_def by blast
      moreover from Some True at have "n = n0 + 1" by (simp add: increment_def)
      ultimately have "1 \<le> Suc k \<and> Suc k \<le> Suc b \<and> n = of_nat (Suc k)" by simp
      then show ?thesis ..
    qed
  qed
qed

lemma counts_within_positive:
  assumes "counts_within fc b" and "b < 2 ^ (LENGTH('w::len) - 1)"
    and "fc m = Some (n :: 'w word)"
  shows "1 \<le> sint n" and "sint n \<le> int b"
proof -
  from assms(1,3) obtain k where k: "1 \<le> k" "k \<le> b" "n = of_nat k"
    unfolding counts_within_def by blast
  with assms(2) have "k < 2 ^ (LENGTH('w) - 1)" by simp
  then have "sint n = int k" using k(3) by (simp only: sint_of_nat_small)
  with k show "1 \<le> sint n" and "sint n \<le> int b" by simp_all
qed

lemma reachable_counts:
  "reachable s \<Longrightarrow> counts_within (failureCounts (fst s)) (failed_calls (trace (snd s)))"
proof (induction rule: reachable.induct)
  case (constructed cl tp grp cid cb options c gs t)
  from NewConsumer_Inr [OF constructed.hyps] show ?case by (simp add: counts_within_def)
next
  case (handled c w messages c' w')
  have "(\<lambda>d v. counts_within (failureCounts d) (failed_calls (trace v))) c' w'"
  proof (rule handlerMsg_preserves [OF handled.hyps(2)])
    from handled.IH show "counts_within (failureCounts c) (failed_calls (trace w))" by simp
  next
    fix d v msg d1 v1
    assume inv: "counts_within (failureCounts d) (failed_calls (trace v))"
      and one: "handlerMsg d v [msg] = Return (d1, v1)"
    from one show "counts_within (failureCounts d1) (failed_calls (trace v1))"
    proof (cases rule: handlerMsg_single_cases)
      case (failed cb err msg')
      with counts_within_increment [OF inv, of msg'] show ?thesis
        by (simp add: emit_def failed_calls_append)
    next
      case (unacked cb err msg')
      with inv show ?thesis by (simp add: emit_def failed_calls_append)
    next
      case (acked cb msg')
      with counts_within_delete [OF inv, of msg'] show ?thesis
        by (simp add: emit_def failed_calls_append)
    qed
  qed
  then show ?case by simp
next
  case (escalated c w order c' w')
  have "(\<lambda>d v. counts_within (failureCounts d) (failed_calls (trace v))) c' w'"
  proof (rule deliverDeadLetter_preserves [OF escalated.hyps(3)])
    from escalated.IH show "counts_within (failureCounts c) (failed_calls (trace w))" by simp
  next
    fix d v msg d1 v1
    assume inv: "counts_within (failureCounts d) (failed_calls (trace v))"
      and one: "deliverDeadLetter d v [msg] = Return (d1, v1)"
    from one show "counts_within (failureCounts d1) (failed_calls (trace v1))"
    proof (cases rule: deliverDeadLetter_single_cases)
      case absent
      with inv show ?thesis by simp
    next
      case (below cnt)
      with inv show ?thesis by simp
    next
      case (unacked cnt mailbox delivered msg' err)
      with inv show ?thesis by (simp add: emit_def failed_calls_append)
    next
      case (acked cnt mailbox delivered msg')
      with counts_within_delete [OF inv, of msg'] show ?thesis
        by (simp add: emit_def failed_calls_append)
    qed
  qed
  then show ?case by simp
next
  case (stopped c w c')
  then show ?case by (auto simp: Stop_def split: option.splits)
qed

lemma failures_append: "failures (xs @ ys) = failures xs \<union> failures ys"
  by (induction xs rule: failures.induct) auto

lemma failures_Cons: "failures (e # tr) = failures [e] \<union> failures tr"
  using failures_append [of "[e]" tr] by simp

lemma trace_ok_append:
  "trace_ok prev failed (xs @ ys) \<longleftrightarrow>
     trace_ok prev failed xs
     \<and> trace_ok (if xs = [] then prev else Some (last xs)) (failures xs \<union> failed) ys"
proof (induction xs arbitrary: prev failed)
  case Nil
  show ?case by simp
next
  case (Cons e xs)
  have "failures (e # xs) \<union> failed = failures xs \<union> (failures [e] \<union> failed)"
    using failures_Cons [of e xs] by blast
  then show ?case using Cons.IH [of "Some e" "failures [e] \<union> failed"] by simp
qed

lemma trace_ok_snoc:
  assumes "trace_ok None {} tr"
    and "trace_ok (if tr = [] then None else Some (last tr)) (failures tr) new"
  shows "trace_ok None {} (tr @ new)"
  using assms by (simp add: trace_ok_append)

lemma handlerMsg_single_trace:
  assumes one: "handlerMsg c w [msg] = Return (c1, w1)"
    and ok: "trace_ok None {} (trace w)"
    and keys: "dom (failureCounts c) \<subseteq> failures (trace w)"
  shows "trace_ok None {} (trace w1) \<and> dom (failureCounts c1) \<subseteq> failures (trace w1)"
  using one
proof (cases rule: handlerMsg_single_cases)
  case (failed cb err msg')
  have "trace_ok None {} (trace w @ [EvCallback msg (Some err) msg'])"
    by (rule trace_ok_snoc [OF ok]) simp
  moreover have "dom (increment (failureCounts c) msg')
                   \<subseteq> failures (trace w @ [EvCallback msg (Some err) msg'])"
    using keys by (auto simp: increment_def failures_append)
  ultimately show ?thesis using failed by (simp add: emit_def)
next
  case (unacked cb err msg')
  have "trace_ok None {} (trace w @ [EvCallback msg None msg', EvXAck (MsgID msg') (Some err)])"
    by (rule trace_ok_snoc [OF ok]) simp
  moreover have "dom (failureCounts c)
       \<subseteq> failures (trace w @ [EvCallback msg None msg', EvXAck (MsgID msg') (Some err)])"
    using keys by (auto simp: failures_append)
  ultimately show ?thesis using unacked by (simp add: emit_def)
next
  case (acked cb msg')
  have "trace_ok None {} (trace w @ [EvCallback msg None msg', EvXAck (MsgID msg') None])"
    by (rule trace_ok_snoc [OF ok]) simp
  moreover have "dom ((failureCounts c)(msg' := None))
       \<subseteq> failures (trace w @ [EvCallback msg None msg', EvXAck (MsgID msg') None])"
    using keys by (auto simp: failures_append)
  ultimately show ?thesis using acked by (simp add: emit_def)
qed

lemma deliverDeadLetter_single_trace:
  assumes one: "deliverDeadLetter c w [msg] = Return (c1, w1)"
    and ok: "trace_ok None {} (trace w)"
    and keys: "dom (failureCounts c) \<subseteq> failures (trace w)"
  shows "trace_ok None {} (trace w1) \<and> dom (failureCounts c1) \<subseteq> failures (trace w1)"
  using one
proof (cases rule: deliverDeadLetter_single_cases)
  case absent
  with ok keys show ?thesis by simp
next
  case (below cnt)
  with ok keys show ?thesis by simp
next
  case (unacked cnt mailbox delivered msg' err)
  from unacked(1) keys have m: "msg \<in> failures (trace w)" by auto
  have "trace_ok None {} (trace w @ [EvDeliver msg delivered msg',
                                     EvXAck (MsgID msg') (Some err)])"
    by (rule trace_ok_snoc [OF ok]) (simp add: m)
  moreover have "dom (failureCounts c)
       \<subseteq> failures (trace w @ [EvDeliver msg delivered msg', EvXAck (MsgID msg') (Some err)])"
    using keys by (auto simp: failures_append)
  ultimately show ?thesis using unacked by (simp add: emit_def)
next
  case (acked cnt mailbox delivered msg')
  from acked(1) keys have m: "msg \<in> failures (trace w)" by auto
  have "trace_ok None {} (trace w @ [EvDeliver msg delivered msg', EvXAck (MsgID msg') None])"
    by (rule trace_ok_snoc [OF ok]) (simp add: m)
  moreover have "dom ((failureCounts c)(msg' := None))
       \<subseteq> failures (trace w @ [EvDeliver msg delivered msg', EvXAck (MsgID msg') None])"
    using keys by (auto simp: failures_append)
  ultimately show ?thesis using acked by (simp add: emit_def)
qed

lemma reachable_trace:
  "reachable s \<Longrightarrow>
     trace_ok None {} (trace (snd s)) \<and> dom (failureCounts (fst s)) \<subseteq> failures (trace (snd s))"
proof (induction rule: reachable.induct)
  case (constructed cl tp grp cid cb options c gs t)
  from NewConsumer_Inr [OF constructed.hyps] show ?case by simp
next
  case (handled c w messages c' w')
  have "(\<lambda>d v. trace_ok None {} (trace v) \<and> dom (failureCounts d) \<subseteq> failures (trace v)) c' w'"
  proof (rule handlerMsg_preserves [OF handled.hyps(2)])
    from handled.IH
    show "trace_ok None {} (trace w) \<and> dom (failureCounts c) \<subseteq> failures (trace w)" by simp
  next
    fix d v msg d1 v1
    assume "trace_ok None {} (trace v) \<and> dom (failureCounts d) \<subseteq> failures (trace v)"
      and "handlerMsg d v [msg] = Return (d1, v1)"
    then show "trace_ok None {} (trace v1) \<and> dom (failureCounts d1) \<subseteq> failures (trace v1)"
      using handlerMsg_single_trace [of d v msg d1 v1] by blast
  qed
  then show ?case by simp
next
  case (escalated c w order c' w')
  have "(\<lambda>d v. trace_ok None {} (trace v) \<and> dom (failureCounts d) \<subseteq> failures (trace v)) c' w'"
  proof (rule deliverDeadLetter_preserves [OF escalated.hyps(3)])
    from escalated.IH
    show "trace_ok None {} (trace w) \<and> dom (failureCounts c) \<subseteq> failures (trace w)" by simp
  next
    fix d v msg d1 v1
    assume "trace_ok None {} (trace v) \<and> dom (failureCounts d) \<subseteq> failures (trace v)"
      and "deliverDeadLetter d v [msg] = Return (d1, v1)"
    then show "trace_ok None {} (trace v1) \<and> dom (failureCounts d1) \<subseteq> failures (trace v1)"
      using deliverDeadLetter_single_trace [of d v msg d1 v1] by blast
  qed
  then show ?case by simp
next
  case (stopped c w c')
  then show ?case by (auto simp: Stop_def split: option.splits)
qed

subsection \<open>The test doubles at work\<close>

text \<open>
  The consumer of the test doubles is what the constructor returns, and the first steps
  of the loop on it, computed. With a callback or a mailbox that overwrites the message
  id, the entry counted, the id acknowledged and the entry deleted are those of the
  message as it was left.
\<close>

lemma startedConsumer_constructed:
  "0 \<le> limit \<Longrightarrow>
   NewConsumer (Some cl) ''T'' ''G'' ''C'' (Some cb)
      [WithMaxRetryLimit limit, WithDeadLetterMailbox (Some mailbox)]
    = Return (Inr (startedConsumer cb cl limit mailbox), [GoRun (startedConsumer cb cl limit mailbox)])"
  by (simp add: NewConsumer_def checkParam_def WithMaxRetryLimit_def WithDeadLetterMailbox_def
        zeroConsumerOptions_def repairConsumer_def startedConsumer_def Let_def)

lemma startedConsumer_reachable:
  "0 \<le> limit \<Longrightarrow> reachable (startedConsumer cb cl limit mailbox, \<lparr>clock = 0, trace = []\<rparr>)"
  by (rule reachable.constructed [OF startedConsumer_constructed])

lemma startedConsumer_well_formed: "well_formed (startedConsumer cb cl limit mailbox)"
  by (simp add: well_formed_def startedConsumer_def)

lemma test_doubles_keep:
  shows "callback_keeps failingCallback" and "callback_keeps succeedingCallback"
    and "callback_keeps pickyCallback" and "mailbox_keeps DeadLetterLogger"
    and "mailbox_keeps failingMailbox"
  by (simp_all add: callback_keeps_def mailbox_keeps_def failingCallback_def
        succeedingCallback_def pickyCallback_def failingMailbox_def)

lemma failing_first:
  "handlerMsg (startedConsumer failingCallback cl limit mailbox) \<lparr>clock = 0, trace = []\<rparr> [msg1]
   = Return (startedConsumer failingCallback cl limit mailbox \<lparr>failureCounts := [msg1 \<mapsto> 1]\<rparr>,
             \<lparr>clock = Suc 0,
              trace = [EvCallback msg1 (Some (ErrExternal ''handler failed'')) msg1]\<rparr>)"
  by (simp add: startedConsumer_def failingCallback_def emit_def increment_def)

lemma escalating_first:
  assumes "mailbox_keeps mailbox"
  shows "deliverDeadLetter
     (startedConsumer failingCallback (replyClient 1) 1 mailbox \<lparr>failureCounts := [msg1 \<mapsto> 1]\<rparr>
        :: 64 word Consumer)
     \<lparr>clock = Suc 0, trace = [EvCallback msg1 (Some (ErrExternal ''handler failed'')) msg1]\<rparr>
     [msg1]
   = Return (startedConsumer failingCallback (replyClient 1) 1 mailbox,
             \<lparr>clock = 3,
              trace = [EvCallback msg1 (Some (ErrExternal ''handler failed'')) msg1,
                       EvDeliver msg1 (fst (Deliver mailbox (Suc 0) msg1)) msg1,
                       EvXAck ''1-0'' None]\<rparr>)"
proof -
  from assms have "snd (Deliver mailbox (Suc 0) msg1) = msg1" by (simp add: mailbox_keeps_def)
  then obtain r where d: "Deliver mailbox (Suc 0) msg1 = (r, msg1)"
    by (cases "Deliver mailbox (Suc 0) msg1") simp
  have id: "MsgID msg1 = ''1-0''" by (simp add: msg1_def)
  show ?thesis
    by (simp add: startedConsumer_def replyClient_def XAck_def emit_def d id)
qed

lemma renaming_first:
  "deliverDeadLetter
     (startedConsumer failingCallback (replyClient 1) 1 renamingMailbox
        \<lparr>failureCounts := [msg1 \<mapsto> 1]\<rparr> :: 64 word Consumer)
     \<lparr>clock = Suc 0, trace = [EvCallback msg1 (Some (ErrExternal ''handler failed'')) msg1]\<rparr>
     [msg1]
   = Return (startedConsumer failingCallback (replyClient 1) 1 renamingMailbox
               \<lparr>failureCounts := [msg1 \<mapsto> 1]\<rparr>,
             \<lparr>clock = 3,
              trace = [EvCallback msg1 (Some (ErrExternal ''handler failed'')) msg1,
                       EvDeliver msg1 None (msg1\<lparr>MsgID := ''9-9''\<rparr>),
                       EvXAck ''9-9'' None]\<rparr>)"
proof -
  have "[msg1 \<mapsto> 1::64 word](msg1\<lparr>MsgID := ''9-9''\<rparr> := None) = [msg1 \<mapsto> 1]"
    by (rule ext) (simp add: msg1_def)
  then show ?thesis
    by (simp add: startedConsumer_def renamingMailbox_def replyClient_def XAck_def emit_def)
qed

lemma renaming_failure:
  "handlerMsg (startedConsumer renamingCallback cl limit mailbox) \<lparr>clock = 0, trace = []\<rparr> [msg1]
   = Return (startedConsumer renamingCallback cl limit mailbox
               \<lparr>failureCounts := [msg1\<lparr>MsgID := ''9-9''\<rparr> \<mapsto> 1]\<rparr>,
             \<lparr>clock = Suc 0,
              trace = [EvCallback msg1 (Some (ErrExternal ''handler failed''))
                         (msg1\<lparr>MsgID := ''9-9''\<rparr>)]\<rparr>)"
  by (simp add: startedConsumer_def renamingCallback_def emit_def increment_def)

lemma acking_known:
  "handlerMsg
     (startedConsumer succeedingCallback (replyClient 1) 2 DeadLetterLogger
        \<lparr>failureCounts := [msg1 \<mapsto> 1]\<rparr>)
     \<lparr>clock = 0, trace = []\<rparr> [msg1]
   = Return (startedConsumer succeedingCallback (replyClient 1) 2 DeadLetterLogger,
             \<lparr>clock = 2, trace = [EvCallback msg1 None msg1, EvXAck ''1-0'' None]\<rparr>)"
  by (simp add: startedConsumer_def succeedingCallback_def replyClient_def XAck_def emit_def
        msg1_def)

section \<open>Dead-letter escalation\<close>

text \<open>
  Claim C1, for a mailbox that leaves the message it is handed as it is (the mailbox gets
  a pointer to the message, and what is acknowledged and removed afterwards is the
  message as the mailbox left it). Take any entry of the failure table, the escalation
  ranging over the table in any order. The escalation returns, and it reaches the entry
  once, with the count it had at the start. If that count is below the limit the entry is
  skipped: nothing is called and nothing changes. Otherwise the mailbox is called and
  then the acknowledgment, whatever the mailbox returned; when the acknowledgment fails
  the table is as it was, and when it succeeds the entry is removed. What holds for the
  entry after its turn holds at the end of the escalation.
\<close>

theorem deliverDeadLetter_each_entry:
  assumes "well_formed c" and "range_order (failureCounts c) order"
    and "failureCounts c msg = Some cnt"
    and "deadLetterMailbox (opts c) = Some mailbox" and "mailbox_keeps mailbox"
  shows "\<exists>pre post c1 w1 c2 w2 c' w'.
       order = pre @ msg # post
     \<and> deliverDeadLetter c w pre = Return (c1, w1)
     \<and> deliverDeadLetter c1 w1 [msg] = Return (c2, w2)
     \<and> deliverDeadLetter c2 w2 post = Return (c', w')
     \<and> deliverDeadLetter c w order = Return (c', w')
     \<and> failureCounts c1 msg = Some cnt
     \<and> failureCounts c' msg = failureCounts c2 msg
     \<and> (if sint cnt < maxRetryLimit (opts c) then c2 = c1 \<and> w2 = w1
         else
          (case XAck (client c) (Suc (clock w1)) (topic c) (groupID c) (MsgID msg) of
             Panic \<Rightarrow> False
           | Return (Some err) \<Rightarrow>
               failureCounts c2 = failureCounts c1
               \<and> trace w2 = trace w1 @ [EvDeliver msg (fst (Deliver mailbox (clock w1) msg)) msg,
                                         EvXAck (MsgID msg) (Some err)]
           | Return None \<Rightarrow>
               failureCounts c2 = (failureCounts c1)(msg := None)
               \<and> trace w2 = trace w1 @ [EvDeliver msg (fst (Deliver mailbox (clock w1) msg)) msg,
                                         EvXAck (MsgID msg) None]))"
  using assms by (rule deliverDeadLetter_at_entry)

theorem deliverDeadLetter_each_entry_witness:
  "well_formed (startedConsumer pickyCallback (replyClient 1) 2 failingMailbox
                  \<lparr>failureCounts := [msg1 \<mapsto> 2, msg2 \<mapsto> 1 :: 64 word]\<rparr>)
   \<and> range_order [msg1 \<mapsto> 2, msg2 \<mapsto> 1 :: 64 word] [msg2, msg1]
   \<and> mailbox_keeps failingMailbox
   \<and> (\<exists>c' w'. deliverDeadLetter
                 (startedConsumer pickyCallback (replyClient 1) 2 failingMailbox
                    \<lparr>failureCounts := [msg1 \<mapsto> 2, msg2 \<mapsto> 1 :: 64 word]\<rparr>)
                 \<lparr>clock = 0, trace = []\<rparr> [msg2, msg1] = Return (c', w')
         \<and> failureCounts c' msg1 = None \<and> failureCounts c' msg2 = Some 1
         \<and> trace w' = [EvDeliver msg1 (Some (ErrExternal ''mailbox down'')) msg1,
                        EvXAck ''1-0'' None])"
proof -
  let ?c = "startedConsumer pickyCallback (replyClient 1) 2 failingMailbox
              \<lparr>failureCounts := [msg1 \<mapsto> 2, msg2 \<mapsto> 1 :: 64 word]\<rparr>"
  have wf: "well_formed ?c"
    by (simp add: well_formed_def startedConsumer_def)
  have ro: "range_order (failureCounts ?c) [msg2, msg1]"
    by (auto simp: range_order_def msg1_def msg2_def)
  have at: "failureCounts ?c msg1 = Some 2"
    by (simp add: msg1_def msg2_def)
  have mb: "deadLetterMailbox (opts ?c) = Some failingMailbox"
    by (simp add: startedConsumer_def)
  have keeps: "mailbox_keeps failingMailbox"
    by (simp add: mailbox_keeps_def failingMailbox_def)
  have "\<exists>c' w'. deliverDeadLetter ?c \<lparr>clock = 0, trace = []\<rparr> [msg2, msg1] = Return (c', w')
         \<and> failureCounts c' msg1 = None \<and> failureCounts c' msg2 = Some 1
         \<and> trace w' = [EvDeliver msg1 (Some (ErrExternal ''mailbox down'')) msg1,
                        EvXAck ''1-0'' None]"
    using deliverDeadLetter_each_entry [OF wf ro at mb keeps, of "\<lparr>clock = 0, trace = []\<rparr>"]
    by (simp add: startedConsumer_def failingMailbox_def replyClient_def XAck_def emit_def
          msg1_def msg2_def)
  with wf ro keeps show ?thesis by simp
qed

section \<open>Handling a batch\<close>

text \<open>
  Claim C2, for a callback that leaves the message it is handed as it is (the callback
  gets a pointer to the message, and what is counted, acknowledged and removed afterwards
  is the message as the callback left it). Take any message of a batch, with the messages
  before and after it. The handler returns on each part, and what it does at this message
  is: if the callback fails, the count of the message goes up by one (from zero when
  there is no entry; the count is a machine integer, and one more than its largest value
  is its smallest) and the only call recorded is the callback, so no acknowledgment is
  attempted; if the callback succeeds, the acknowledgment is attempted next; when that
  fails the table is as it was, and when it succeeds the entry of the message is removed.
\<close>

theorem handlerMsg_each_message:
  assumes "well_formed c" and "callbackFunc c = Some cb" and "callback_keeps cb"
  shows "\<exists>c1 w1 c2 w2 c' w'.
      handlerMsg c w pre = Return (c1, w1)
    \<and> handlerMsg c1 w1 [msg] = Return (c2, w2)
    \<and> handlerMsg c2 w2 post = Return (c', w')
    \<and> handlerMsg c w (pre @ msg # post) = Return (c', w')
    \<and> (case fst (cb (clock w1) msg) of
          Some err \<Rightarrow>
            failureCounts c2 =
              (failureCounts c1)(msg \<mapsto> (case failureCounts c1 msg of None \<Rightarrow> 0 | Some n \<Rightarrow> n) + 1)
            \<and> trace w2 = trace w1 @ [EvCallback msg (Some err) msg]
        | None \<Rightarrow>
           (case XAck (client c) (Suc (clock w1)) (topic c) (groupID c) (MsgID msg) of
              Panic \<Rightarrow> False
            | Return (Some err) \<Rightarrow>
                failureCounts c2 = failureCounts c1
                \<and> trace w2 = trace w1 @ [EvCallback msg None msg, EvXAck (MsgID msg) (Some err)]
            | Return None \<Rightarrow>
                failureCounts c2 = (failureCounts c1)(msg := None)
                \<and> trace w2 = trace w1 @ [EvCallback msg None msg, EvXAck (MsgID msg) None]))"
proof -
  note cb = assms(2)
  from handlerMsg_returns [OF assms(1), of w pre]
  obtain c1 w1 where p: "handlerMsg c w pre = Return (c1, w1)" and wf1: "well_formed c1"
    by blast
  from handlerMsg_returns [OF wf1, of w1 "[msg]"]
  obtain c2 w2 where one: "handlerMsg c1 w1 [msg] = Return (c2, w2)" and wf2: "well_formed c2"
    by blast
  from handlerMsg_returns [OF wf2, of w2 post]
  obtain c' w' where q: "handlerMsg c2 w2 post = Return (c', w')"
    by blast
  have "handlerMsg c1 w1 (msg # post) = Return (c', w')"
    using handlerMsg_Cons [of c1 w1 msg post] one q by (simp only: outcome.case prod.case)
  then have whole: "handlerMsg c w (pre @ msg # post) = Return (c', w')"
    using handlerMsg_append [of c w pre "msg # post"] p by (simp only: outcome.case prod.case)
  note fr = frame_fields [OF handlerMsg_frame [OF p]]
  from assms(3) have keeps: "snd (cb (clock w1) msg) = msg" by (simp add: callback_keeps_def)
  have rel: "(case fst (cb (clock w1) msg) of
          Some err \<Rightarrow>
            failureCounts c2 =
              (failureCounts c1)(msg \<mapsto> (case failureCounts c1 msg of None \<Rightarrow> 0 | Some n \<Rightarrow> n) + 1)
            \<and> trace w2 = trace w1 @ [EvCallback msg (Some err) msg]
        | None \<Rightarrow>
           (case XAck (client c) (Suc (clock w1)) (topic c) (groupID c) (MsgID msg) of
              Panic \<Rightarrow> False
            | Return (Some err) \<Rightarrow>
                failureCounts c2 = failureCounts c1
                \<and> trace w2 = trace w1 @ [EvCallback msg None msg, EvXAck (MsgID msg) (Some err)]
            | Return None \<Rightarrow>
                failureCounts c2 = (failureCounts c1)(msg := None)
                \<and> trace w2 = trace w1 @ [EvCallback msg None msg, EvXAck (MsgID msg) None]))"
    using one
  proof (cases rule: handlerMsg_single_cases)
    case (failed cb' err msg')
    from failed(1) fr cb have "cb' = cb" by simp
    with failed(2) keeps have "msg' = msg" and "cb (clock w1) msg = (Some err, msg)" by auto
    with failed fr show ?thesis by (simp add: increment_def emit_def)
  next
    case (unacked cb' err msg')
    from unacked(1) fr cb have "cb' = cb" by simp
    with unacked(2) keeps have "msg' = msg" and "cb (clock w1) msg = (None, msg)" by auto
    with unacked fr show ?thesis by (simp add: emit_def)
  next
    case (acked cb' msg')
    from acked(1) fr cb have "cb' = cb" by simp
    with acked(2) keeps have "msg' = msg" and "cb (clock w1) msg = (None, msg)" by auto
    with acked fr show ?thesis by (simp add: emit_def)
  qed
  from p one q whole rel show ?thesis by blast
qed

theorem handlerMsg_each_message_witness:
  "well_formed (startedConsumer pickyCallback (replyClient 1) 2 DeadLetterLogger
                  :: 64 word Consumer)
   \<and> callback_keeps pickyCallback
   \<and> (\<exists>c' w'. handlerMsg (startedConsumer pickyCallback (replyClient 1) 2 DeadLetterLogger
                             :: 64 word Consumer)
                 \<lparr>clock = 0, trace = []\<rparr> [msg2, msg1, msg1] = Return (c', w')
         \<and> failureCounts c' msg1 = Some 2 \<and> failureCounts c' msg2 = None
         \<and> trace w' = [EvCallback msg2 None msg2, EvXAck ''2-0'' None,
                        EvCallback msg1 (Some (ErrExternal ''handler failed'')) msg1,
                        EvCallback msg1 (Some (ErrExternal ''handler failed'')) msg1])"
proof -
  let ?c = "startedConsumer pickyCallback (replyClient 1) 2 DeadLetterLogger :: 64 word Consumer"
  have wf: "well_formed ?c"
    by (rule startedConsumer_well_formed)
  have cb: "callbackFunc ?c = Some pickyCallback"
    by (simp add: startedConsumer_def)
  have keeps: "callback_keeps pickyCallback"
    by (simp add: callback_keeps_def pickyCallback_def)
  have "\<exists>c' w'. handlerMsg ?c \<lparr>clock = 0, trace = []\<rparr> [msg2, msg1, msg1] = Return (c', w')
         \<and> failureCounts c' msg1 = Some 2 \<and> failureCounts c' msg2 = None
         \<and> trace w' = [EvCallback msg2 None msg2, EvXAck ''2-0'' None,
                        EvCallback msg1 (Some (ErrExternal ''handler failed'')) msg1,
                        EvCallback msg1 (Some (ErrExternal ''handler failed'')) msg1]"
    using handlerMsg_each_message
      [OF wf cb keeps, of "\<lparr>clock = 0, trace = []\<rparr>" "[msg2]" msg1 "[msg1]"]
    by (simp add: startedConsumer_def pickyCallback_def replyClient_def XAck_def emit_def
          increment_def msg1_def msg2_def)
  with wf keeps show ?thesis by blast
qed

section \<open>Acknowledgments in the trace\<close>

text \<open>
  Claim C3, as stated, on one pass of the loop. The consumer is constructed with a retry
  limit of 1 and a callback that always fails; the pass claims one new message. The
  callback fails, the escalation hands the message to the mailbox and acknowledges it:
  the acknowledgment is issued, and the callback never returned success.
\<close>

theorem ack_without_success:
  "NewConsumer (Some (replyClient 1)) ''T'' ''G'' ''C'' (Some failingCallback)
      [WithMaxRetryLimit 1, WithDeadLetterMailbox (Some DeadLetterLogger)]
     = Return (Inr (startedConsumer failingCallback (replyClient 1) 1 DeadLetterLogger
                      :: 64 word Consumer),
               [GoRun (startedConsumer failingCallback (replyClient 1) 1 DeadLetterLogger)])
   \<and> cycles_ok (startedConsumer failingCallback (replyClient 1) 1 DeadLetterLogger
                   :: 64 word Consumer)
        \<lparr>clock = 0, trace = []\<rparr> [oneFailingPass]
   \<and> run (startedConsumer failingCallback (replyClient 1) 1 DeadLetterLogger
             :: 64 word Consumer)
        \<lparr>clock = 0, trace = []\<rparr> [oneFailingPass]
     = Return (startedConsumer failingCallback (replyClient 1) 1 DeadLetterLogger,
               \<lparr>clock = 3,
                trace = [EvCallback msg1 (Some (ErrExternal ''handler failed'')) msg1,
                         EvDeliver msg1 None msg1, EvXAck ''1-0'' None]\<rparr>)
   \<and> \<not> acked_after_success []
         [EvCallback msg1 (Some (ErrExternal ''handler failed'')) msg1,
          EvDeliver msg1 None msg1, EvXAck ''1-0'' None]"
proof -
  let ?c = "startedConsumer failingCallback (replyClient 1) 1 DeadLetterLogger
              :: 64 word Consumer"
  let ?tr = "[EvCallback msg1 (Some (ErrExternal ''handler failed'')) msg1,
              EvDeliver msg1 None msg1, EvXAck ''1-0'' None]"
  have rcv: "receive ?c (Inr [msg1]) = Return (Inr [msg1])"
    by (simp add: receive_def xReadGroup_def startedConsumer_def)
  have pnd: "receivePending ?c (Inl ErrNoMsg) = Return (Inr [])"
    by (simp add: receivePending_def xReadGroup_def startedConsumer_def)
  have it: "iteration ?c \<lparr>clock = 0, trace = []\<rparr> oneFailingPass
              = Return (?c, \<lparr>clock = 3, trace = ?tr\<rparr>)"
    using escalating_first [OF test_doubles_keep(4)]
    by (simp add: iteration_def oneFailingPass_def rcv pnd failing_first
          del: handlerMsg.simps(2) deliverDeadLetter.simps(2))
  have ok: "cycle_ok ?c \<lparr>clock = 0, trace = []\<rparr> oneFailingPass"
    by (simp add: cycle_ok_def oneFailingPass_def rcv failing_first range_order_def
          del: handlerMsg.simps(2))
  have nd: "\<not> Done (ctx ?c)" by (simp add: startedConsumer_def background_def)
  have "run ?c \<lparr>clock = 0, trace = []\<rparr> [oneFailingPass]
          = Return (?c, \<lparr>clock = 3, trace = ?tr\<rparr>)"
    using nd it by simp
  moreover have "cycles_ok ?c \<lparr>clock = 0, trace = []\<rparr> [oneFailingPass]"
    using ok it by simp
  moreover have "\<not> acked_after_success [] ?tr"
    by simp
  moreover have "NewConsumer (Some (replyClient 1)) ''T'' ''G'' ''C'' (Some failingCallback)
      [WithMaxRetryLimit 1, WithDeadLetterMailbox (Some DeadLetterLogger)]
     = Return (Inr ?c, [GoRun ?c])"
    by (rule startedConsumer_constructed) simp
  ultimately show ?thesis by blast
qed

text \<open>
  Claim C3, amended. In every state the loop can be in, each acknowledgment in the trace
  comes directly after a callback that returned success or directly after a call of the
  dead-letter mailbox, and it is for the id the message had when that call returned; and
  the mailbox is only ever called for a message that a failed callback has returned with
  before. This holds whatever the callback and the mailbox do to the message they are
  handed: below, the mailbox renames it and the acknowledgment is for the new id.
\<close>

theorem acks_follow_success_or_dead_letter:
  assumes "reachable (c, w)"
  shows "trace_ok None {} (trace w)"
  using reachable_trace [OF assms] by simp

theorem acks_follow_success_or_dead_letter_witness:
  "reachable (startedConsumer failingCallback (replyClient 1) 1 renamingMailbox
                \<lparr>failureCounts := [msg1 \<mapsto> 1 :: 64 word]\<rparr>,
              \<lparr>clock = 3,
               trace = [EvCallback msg1 (Some (ErrExternal ''handler failed'')) msg1,
                        EvDeliver msg1 None (msg1\<lparr>MsgID := ''9-9''\<rparr>),
                        EvXAck ''9-9'' None]\<rparr>)
   \<and> trace_ok None {} [EvCallback msg1 (Some (ErrExternal ''handler failed'')) msg1,
                        EvDeliver msg1 None (msg1\<lparr>MsgID := ''9-9''\<rparr>),
                        EvXAck ''9-9'' None]"
proof -
  let ?c = "startedConsumer failingCallback (replyClient 1) 1 renamingMailbox
              :: 64 word Consumer"
  have r0: "reachable (?c, \<lparr>clock = 0, trace = []\<rparr>)"
    by (rule startedConsumer_reachable) simp
  have r1: "reachable (?c\<lparr>failureCounts := [msg1 \<mapsto> 1]\<rparr>,
             \<lparr>clock = Suc 0,
              trace = [EvCallback msg1 (Some (ErrExternal ''handler failed'')) msg1]\<rparr>)"
    by (rule reachable.handled [OF r0 failing_first])
  have ro: "range_order (failureCounts (?c\<lparr>failureCounts := [msg1 \<mapsto> 1]\<rparr>)) [msg1]"
    by (simp add: range_order_def)
  have r2: "reachable (?c\<lparr>failureCounts := [msg1 \<mapsto> 1]\<rparr>,
              \<lparr>clock = 3,
               trace = [EvCallback msg1 (Some (ErrExternal ''handler failed'')) msg1,
                        EvDeliver msg1 None (msg1\<lparr>MsgID := ''9-9''\<rparr>),
                        EvXAck ''9-9'' None]\<rparr>)"
    by (rule reachable.escalated [OF r1 ro renaming_first])
  from acks_follow_success_or_dead_letter [OF r2] r2 show ?thesis by simp
qed

section \<open>Life of a table entry\<close>

text \<open>
  Claim C4, as stated, on one message. The callback fails and the entry is created with
  count 1, which is the limit; the escalation calls the mailbox, which fails, and
  acknowledges, which succeeds: the entry is removed, and the delivery did not succeed.
\<close>

theorem removed_after_failed_delivery:
  "handlerMsg (startedConsumer failingCallback (replyClient 1) 1 failingMailbox
                 :: 64 word Consumer)
       \<lparr>clock = 0, trace = []\<rparr> [msg1]
     = Return (startedConsumer failingCallback (replyClient 1) 1 failingMailbox
                 \<lparr>failureCounts := [msg1 \<mapsto> 1]\<rparr>,
               \<lparr>clock = Suc 0,
                trace = [EvCallback msg1 (Some (ErrExternal ''handler failed'')) msg1]\<rparr>)
   \<and> deliverDeadLetter
       (startedConsumer failingCallback (replyClient 1) 1 failingMailbox
          \<lparr>failureCounts := [msg1 \<mapsto> 1]\<rparr> :: 64 word Consumer)
       \<lparr>clock = Suc 0,
        trace = [EvCallback msg1 (Some (ErrExternal ''handler failed'')) msg1]\<rparr> [msg1]
     = Return (startedConsumer failingCallback (replyClient 1) 1 failingMailbox,
               \<lparr>clock = 3,
                trace = [EvCallback msg1 (Some (ErrExternal ''handler failed'')) msg1,
                         EvDeliver msg1 (Some (ErrExternal ''mailbox down'')) msg1,
                         EvXAck ''1-0'' None]\<rparr>)
   \<and> failureCounts (startedConsumer failingCallback (replyClient 1) 1 failingMailbox
                       \<lparr>failureCounts := [msg1 \<mapsto> 1]\<rparr> :: 64 word Consumer) msg1 = Some 1
   \<and> failureCounts (startedConsumer failingCallback (replyClient 1) 1 failingMailbox
                       :: 64 word Consumer) msg1 = None"
  using failing_first [of "replyClient 1" 1 failingMailbox]
    escalating_first [OF test_doubles_keep(5)]
  by (simp add: failingMailbox_def startedConsumer_def
        del: handlerMsg.simps(2) deliverDeadLetter.simps(2))

text \<open>
  Claim C4, amended. A callback failure creates the entry of the message, as the callback
  left it, with count 1 when there is none, and adds one to the count when there is one
  (in the machine integer of the table). An entry that is in the table before a batch is
  handled and gone after it was removed by a successful acknowledgment that followed a
  successful callback which returned with that message. An entry that is in the table
  before an escalation and gone after it was removed by a successful acknowledgment that
  followed a call of the mailbox which returned with that message, whatever error that
  call returned.
\<close>

theorem entry_created_incremented_removed:
  "(\<forall>cb err msg'. callbackFunc c = Some cb \<and> cb (clock w) msg = (Some err, msg') \<longrightarrow>
       handlerMsg c w [msg] =
         Return (c\<lparr>failureCounts :=
                     (failureCounts c)
                       (msg' \<mapsto> (case failureCounts c msg' of None \<Rightarrow> 1 | Some n \<Rightarrow> n + 1))\<rparr>,
                 emit w (EvCallback msg (Some err) msg')))
   \<and> (\<forall>c' w'. handlerMsg c w messages = Return (c', w')
          \<and> failureCounts c m \<noteq> None \<and> failureCounts c' m = None \<longrightarrow>
        (\<exists>tr1 tr2 msg0.
           trace w' = trace w @ tr1 @ [EvCallback msg0 None m, EvXAck (MsgID m) None] @ tr2))
   \<and> (\<forall>c' w'. deliverDeadLetter c w order = Return (c', w')
          \<and> failureCounts c m \<noteq> None \<and> failureCounts c' m = None \<longrightarrow>
        (\<exists>tr1 tr2 msg0 r.
           trace w' = trace w @ tr1 @ [EvDeliver msg0 r m, EvXAck (MsgID m) None] @ tr2))"
proof (intro conjI allI impI)
  fix cb err msg'
  assume a: "callbackFunc c = Some cb \<and> cb (clock w) msg = (Some err, msg')"
  have "(case failureCounts c msg' of None \<Rightarrow> 0 | Some n \<Rightarrow> n) + 1
          = (case failureCounts c msg' of None \<Rightarrow> 1 | Some n \<Rightarrow> n + 1)"
    by (simp split: option.split)
  with a show "handlerMsg c w [msg] =
         Return (c\<lparr>failureCounts :=
                     (failureCounts c)
                       (msg' \<mapsto> (case failureCounts c msg' of None \<Rightarrow> 1 | Some n \<Rightarrow> n + 1))\<rparr>,
                 emit w (EvCallback msg (Some err) msg'))"
    by (simp add: increment_def)
next
  fix c' w'
  assume "handlerMsg c w messages = Return (c', w')
          \<and> failureCounts c m \<noteq> None \<and> failureCounts c' m = None"
  then show "\<exists>tr1 tr2 msg0.
           trace w' = trace w @ tr1 @ [EvCallback msg0 None m, EvXAck (MsgID m) None] @ tr2"
    using handlerMsg_removed [of c w messages c' w' m] by blast
next
  fix c' w'
  assume "deliverDeadLetter c w order = Return (c', w')
          \<and> failureCounts c m \<noteq> None \<and> failureCounts c' m = None"
  then show "\<exists>tr1 tr2 msg0 r.
           trace w' = trace w @ tr1 @ [EvDeliver msg0 r m, EvXAck (MsgID m) None] @ tr2"
    using deliverDeadLetter_removed [of c w order c' w' m] by blast
qed

theorem entry_created_incremented_removed_witness:
  "handlerMsg (startedConsumer failingCallback (replyClient 1) 2 DeadLetterLogger
                 :: 64 word Consumer)
       \<lparr>clock = 0, trace = []\<rparr> [msg1]
     = Return (startedConsumer failingCallback (replyClient 1) 2 DeadLetterLogger
                 \<lparr>failureCounts := [msg1 \<mapsto> 1]\<rparr>,
               \<lparr>clock = 1,
                trace = [EvCallback msg1 (Some (ErrExternal ''handler failed'')) msg1]\<rparr>)
   \<and> handlerMsg (startedConsumer failingCallback (replyClient 1) 2 DeadLetterLogger
                    \<lparr>failureCounts := [msg1 \<mapsto> 1]\<rparr> :: 64 word Consumer)
       \<lparr>clock = 0, trace = []\<rparr> [msg1]
     = Return (startedConsumer failingCallback (replyClient 1) 2 DeadLetterLogger
                 \<lparr>failureCounts := [msg1 \<mapsto> 2]\<rparr>,
               \<lparr>clock = 1,
                trace = [EvCallback msg1 (Some (ErrExternal ''handler failed'')) msg1]\<rparr>)
   \<and> (\<exists>tr1 tr2 msg0. [EvCallback msg1 None msg1, EvXAck ''1-0'' None]
                    = tr1 @ [EvCallback msg0 None msg1, EvXAck ''1-0'' None] @ tr2)
   \<and> (\<exists>tr1 tr2 msg0 r.
         [EvCallback msg1 (Some (ErrExternal ''handler failed'')) msg1,
          EvDeliver msg1 (Some (ErrExternal ''mailbox down'')) msg1, EvXAck ''1-0'' None]
          = [EvCallback msg1 (Some (ErrExternal ''handler failed'')) msg1]
            @ tr1 @ [EvDeliver msg0 r msg1, EvXAck ''1-0'' None] @ tr2)"
proof -
  let ?cF = "startedConsumer failingCallback (replyClient 1) 2 DeadLetterLogger
               :: 64 word Consumer"
  let ?cS = "startedConsumer succeedingCallback (replyClient 1) 2 DeadLetterLogger
               :: 64 word Consumer"
  let ?cM = "startedConsumer failingCallback (replyClient 1) 1 failingMailbox
               :: 64 word Consumer"
  let ?w0 = "\<lparr>clock = 0, trace = []\<rparr>"
  let ?w1 = "\<lparr>clock = Suc 0,
             trace = [EvCallback msg1 (Some (ErrExternal ''handler failed'')) msg1]\<rparr>"
  have cbF: "callbackFunc ?cF = Some failingCallback
               \<and> failingCallback (clock ?w0) msg1 = (Some (ErrExternal ''handler failed''), msg1)"
    by (simp add: startedConsumer_def failingCallback_def)
  have a: "handlerMsg ?cF ?w0 [msg1]
     = Return (?cF\<lparr>failureCounts := [msg1 \<mapsto> 1]\<rparr>,
               \<lparr>clock = 1,
                trace = [EvCallback msg1 (Some (ErrExternal ''handler failed'')) msg1]\<rparr>)"
    using entry_created_incremented_removed [of ?cF ?w0 msg1, THEN conjunct1, rule_format, OF cbF]
    by (simp add: emit_def startedConsumer_def del: handlerMsg.simps(2))
  have cbF1: "callbackFunc (?cF\<lparr>failureCounts := [msg1 \<mapsto> 1]\<rparr>) = Some failingCallback
               \<and> failingCallback (clock ?w0) msg1 = (Some (ErrExternal ''handler failed''), msg1)"
    by (simp add: startedConsumer_def failingCallback_def)
  have b: "handlerMsg (?cF\<lparr>failureCounts := [msg1 \<mapsto> 1]\<rparr>) ?w0 [msg1]
     = Return (?cF\<lparr>failureCounts := [msg1 \<mapsto> 2]\<rparr>,
               \<lparr>clock = 1,
                trace = [EvCallback msg1 (Some (ErrExternal ''handler failed'')) msg1]\<rparr>)"
    using entry_created_incremented_removed
      [of "?cF\<lparr>failureCounts := [msg1 \<mapsto> 1]\<rparr>" ?w0 msg1, THEN conjunct1, rule_format, OF cbF1]
    by (simp add: emit_def startedConsumer_def del: handlerMsg.simps(2))
  have pc: "handlerMsg (?cS\<lparr>failureCounts := [msg1 \<mapsto> 1]\<rparr>) ?w0 [msg1]
              = Return (?cS, \<lparr>clock = 2, trace = [EvCallback msg1 None msg1, EvXAck ''1-0'' None]\<rparr>)
            \<and> failureCounts (?cS\<lparr>failureCounts := [msg1 \<mapsto> 1]\<rparr>) msg1 \<noteq> None
            \<and> failureCounts ?cS msg1 = None"
    using acking_known by (simp add: startedConsumer_def del: handlerMsg.simps(2))
  have c: "\<exists>tr1 tr2 msg0. [EvCallback msg1 None msg1, EvXAck ''1-0'' None]
                    = tr1 @ [EvCallback msg0 None msg1, EvXAck ''1-0'' None] @ tr2"
    using entry_created_incremented_removed
      [of "?cS\<lparr>failureCounts := [msg1 \<mapsto> 1]\<rparr>" ?w0 msg1 "[msg1]" msg1,
       THEN conjunct2, THEN conjunct1, rule_format, OF pc]
    by (simp add: msg1_def)
  have pd: "deliverDeadLetter (?cM\<lparr>failureCounts := [msg1 \<mapsto> 1]\<rparr>) ?w1 [msg1]
              = Return (?cM, \<lparr>clock = 3,
                    trace = [EvCallback msg1 (Some (ErrExternal ''handler failed'')) msg1,
                             EvDeliver msg1 (Some (ErrExternal ''mailbox down'')) msg1,
                             EvXAck ''1-0'' None]\<rparr>)
            \<and> failureCounts (?cM\<lparr>failureCounts := [msg1 \<mapsto> 1]\<rparr>) msg1 \<noteq> None
            \<and> failureCounts ?cM msg1 = None"
    using escalating_first [OF test_doubles_keep(5)]
    by (simp add: startedConsumer_def failingMailbox_def del: deliverDeadLetter.simps(2))
  have d: "\<exists>tr1 tr2 msg0 r.
         [EvCallback msg1 (Some (ErrExternal ''handler failed'')) msg1,
          EvDeliver msg1 (Some (ErrExternal ''mailbox down'')) msg1, EvXAck ''1-0'' None]
          = [EvCallback msg1 (Some (ErrExternal ''handler failed'')) msg1]
            @ tr1 @ [EvDeliver msg0 r msg1, EvXAck ''1-0'' None] @ tr2"
    using entry_created_incremented_removed
      [of "?cM\<lparr>failureCounts := [msg1 \<mapsto> 1]\<rparr>" ?w1 msg1 "[]" msg1 "[msg1]",
       THEN conjunct2, THEN conjunct2, rule_format, OF pd]
    by (simp add: msg1_def)
  from a b c d show ?thesis by blast
qed

section \<open>Construction\<close>

text \<open>
  Claim C5. The constructor returns an error exactly when the callback is nil, the client
  is nil, or one of topic, group and consumer id is empty, and then it starts no goroutine.
  Whenever it returns a consumer it has started exactly one goroutine, which runs the loop
  of that consumer; and with valid parameters and no nil option it does return a consumer.
  (A nil option makes the constructor panic: it then neither returns an error nor starts
  the loop.)
\<close>

theorem NewConsumer_contract:
  "((\<exists>err (gs :: 'w::len word goroutine list).
        NewConsumer cl tp grp cid cb options = Return (Inl err, gs))
      \<longleftrightarrow> (cb = None \<or> cl = None \<or> tp = [] \<or> grp = [] \<or> cid = []))
   \<and> (\<forall>err (gs :: 'w word goroutine list).
        NewConsumer cl tp grp cid cb options = Return (Inl err, gs) \<longrightarrow> gs = [])
   \<and> (\<forall>(c :: 'w word Consumer) gs.
        NewConsumer cl tp grp cid cb options = Return (Inr c, gs) \<longrightarrow> gs = [GoRun c])
   \<and> (cb \<noteq> None \<and> cl \<noteq> None \<and> tp \<noteq> [] \<and> grp \<noteq> [] \<and> cid \<noteq> [] \<and> None \<notin> set options
        \<longrightarrow> (\<exists>c :: 'w word Consumer.
               NewConsumer cl tp grp cid cb options = Return (Inr c, [GoRun c])))"
proof (cases "cb = None \<or> cl = None \<or> tp = [] \<or> grp = [] \<or> cid = []")
  case True
  from NewConsumer_invalid [OF True, of options]
  obtain err where "NewConsumer cl tp grp cid cb options
                      = Return (Inl err, ([] :: 'w word goroutine list))" ..
  with True show ?thesis by auto
next
  case False
  then have v: "cb \<noteq> None" "cl \<noteq> None" "tp \<noteq> []" "grp \<noteq> []" "cid \<noteq> []" by simp_all
  note eq = NewConsumer_valid [where ?'a = 'w, OF v, of options]
  show ?thesis
  proof (cases "applyOptions options zeroConsumerOptions")
    case Panic
    with eq have "(NewConsumer cl tp grp cid cb options
                     :: ((error + 'w word Consumer) \<times> 'w word goroutine list) outcome) = Panic"
      by simp
    moreover have "None \<in> set options"
    proof (rule ccontr)
      assume "None \<notin> set options"
      from applyOptions_returns [OF this, of zeroConsumerOptions] Panic show False by simp
    qed
    ultimately show ?thesis using False by simp
  next
    case (Return os)
    with eq False show ?thesis by simp
  qed
qed

theorem NewConsumer_contract_witness:
  "NewConsumer (Some (replyClient 1)) ''T'' ''G'' ''C'' None []
     = Return (Inl ErrCallbackEmpty, ([] :: 64 word goroutine list))
   \<and> NewConsumer (Some (replyClient 1)) ''T'' [] ''C'' (Some succeedingCallback) []
       = Return (Inl ErrIdentityEmpty, ([] :: 64 word goroutine list))
   \<and> (\<exists>c :: 64 word Consumer.
         NewConsumer (Some (replyClient 1)) ''T'' ''G'' ''C'' (Some succeedingCallback)
             [WithMaxRetryLimit 2] = Return (Inr c, [GoRun c]))"
proof -
  have "\<exists>c :: 64 word Consumer. NewConsumer (Some (replyClient 1)) ''T'' ''G'' ''C'' (Some succeedingCallback)
             [WithMaxRetryLimit 2] = Return (Inr c, [GoRun c])"
    using NewConsumer_contract [where ?'w = 64, of "Some (replyClient 1)" "''T''" "''G''" "''C''"
      "Some succeedingCallback" "[WithMaxRetryLimit 2]"]
    by (simp add: WithMaxRetryLimit_def)
  moreover have "NewConsumer (Some (replyClient 1)) ''T'' ''G'' ''C'' None []
                   = Return (Inl ErrCallbackEmpty, ([] :: 64 word goroutine list))"
    by (simp add: NewConsumer_def checkParam_def)
  moreover have "NewConsumer (Some (replyClient 1)) ''T'' [] ''C'' (Some succeedingCallback) []
       = Return (Inl ErrIdentityEmpty, ([] :: 64 word goroutine list))"
    by (simp add: NewConsumer_def checkParam_def)
  ultimately show ?thesis by blast
qed

section \<open>Acknowledgment replies\<close>

text \<open>
  Claim C6, as stated, at the reply 2: two is not fewer than one record, and the
  acknowledgment fails all the same, with the invalid-reply error.
\<close>

theorem XAck_reply_two:
  "\<not> (2::int) < 1
   \<and> XAck (Some (replyClient 2)) 0 ''T'' ''G'' ''1-0'' = Return (Some (ErrInvalidReply 2))"
  by (simp add: XAck_def replyClient_def)

text \<open>
  Claim C6, amended. With topic, group and message id non-empty, a connection obtained and
  an integer reply received, the acknowledgment succeeds exactly when the reply is 1, and
  fails with the invalid-reply error for every other reply (so for every reply below 1).
\<close>

theorem XAck_reply:
  assumes "tp \<noteq> []" and "grp \<noteq> []" and "msgID \<noteq> []"
    and "GetContext (pool cl) cx = Inr conn"
    and "DoInt64 conn [''XACK'', tp, grp, msgID] = Inr reply"
  shows "XAck (Some cl) cx tp grp msgID =
           (if reply = 1 then Return None else Return (Some (ErrInvalidReply reply)))"
  using assms by (simp add: XAck_def)

theorem XAck_reply_witness:
  "XAck (Some (replyClient 1)) 0 ''T'' ''G'' ''1-0'' = Return None
   \<and> XAck (Some (replyClient 0)) 0 ''T'' ''G'' ''1-0'' = Return (Some (ErrInvalidReply 0))"
  using XAck_reply [of "''T''" "''G''" "''1-0''" "replyClient 1" 0 "\<lparr>DoInt64 = \<lambda>cmd. Inr 1\<rparr>" 1]
    XAck_reply [of "''T''" "''G''" "''1-0''" "replyClient 0" 0 "\<lparr>DoInt64 = \<lambda>cmd. Inr 0\<rparr>" 0]
  by (simp add: replyClient_def)

section \<open>Configuration defaults\<close>

text \<open>
  Claim C7. Each of the five fields is repaired on its own and only at its unset value:
  a negative receive timeout becomes 2 seconds, a negative retry limit becomes 3, an
  absent mailbox becomes the logging mailbox, a dead-letter timeout and a handling
  timeout that are zero or negative become 1 second; every other value is kept.
\<close>

theorem repairConsumer_fields:
  "receiveTimeout (repairConsumer os) =
     (if receiveTimeout os < 0 then 2000000000 else receiveTimeout os)
   \<and> maxRetryLimit (repairConsumer os) = (if maxRetryLimit os < 0 then 3 else maxRetryLimit os)
   \<and> deadLetterMailbox (repairConsumer os) =
     (case deadLetterMailbox os of None \<Rightarrow> Some DeadLetterLogger | Some mailbox \<Rightarrow> Some mailbox)
   \<and> deadLetterDeliverTimeout (repairConsumer os) =
     (if deadLetterDeliverTimeout os \<le> 0 then 1000000000 else deadLetterDeliverTimeout os)
   \<and> handleMsgTimeout (repairConsumer os) =
     (if handleMsgTimeout os \<le> 0 then 1000000000 else handleMsgTimeout os)"
  by (simp add: repairConsumer_def Second_def Let_def split: option.split)

section \<open>A retry limit of zero\<close>

text \<open>
  Claim C8, for a mailbox that leaves the message it is handed as it is, on a build whose
  integers have more than one bit. The repair keeps a retry limit of 0. With that limit,
  when the callback fails for a message the handler leaves an entry for it (for the
  message as the callback left it), with count 1 when there was no entry. On a first
  failure, and on any failure as long as the number of failed callbacks fits the integers
  of the table, that count is not below the limit, and the escalation that follows,
  whatever the order of its range, calls the mailbox for that message. More generally,
  with that limit and as long as the number of failed callbacks fits, an escalation calls
  the mailbox for every entry the table holds when it starts.
\<close>

theorem zero_limit_escalates:
  assumes "reachable (c :: 'w::len word Consumer, w)"
    and "opts c = repairConsumer os" and "maxRetryLimit os = 0"
    and "callbackFunc c = Some cb" and "cb (clock w) msg = (Some err, msg')"
    and "deadLetterMailbox (opts c) = Some mailbox" and "mailbox_keeps mailbox"
    and "1 < LENGTH('w)"
  shows "maxRetryLimit (opts c) = 0
     \<and> (\<exists>c1 w1 n. handlerMsg c w [msg] = Return (c1, w1)
          \<and> failureCounts c1 msg' = Some n
          \<and> (failureCounts c msg' = None \<longrightarrow> n = 1)
          \<and> (failureCounts c msg' = None
               \<or> Suc (failed_calls (trace w)) < 2 ^ (LENGTH('w) - 1) \<longrightarrow>
                 maxRetryLimit (opts c1) \<le> sint n
                 \<and> (\<forall>order. range_order (failureCounts c1) order \<longrightarrow>
                      (\<exists>c2 w2 tr1 tr2 r. deliverDeadLetter c1 w1 order = Return (c2, w2)
                         \<and> trace w2 = trace w1 @ tr1 @ [EvDeliver msg' r msg'] @ tr2))))
     \<and> (failed_calls (trace w) < 2 ^ (LENGTH('w) - 1) \<longrightarrow>
         (\<forall>m k order. failureCounts c m = Some k \<and> range_order (failureCounts c) order \<longrightarrow>
           (\<exists>c2 w2 tr1 tr2 r. deliverDeadLetter c w order = Return (c2, w2)
              \<and> trace w2 = trace w @ tr1 @ [EvDeliver m r m] @ tr2)))"
proof -
  let ?n = "(case failureCounts c msg' of None \<Rightarrow> 0 | Some k \<Rightarrow> k) + 1"
  let ?c1 = "c\<lparr>failureCounts := increment (failureCounts c) msg'\<rparr>"
  let ?w1 = "emit w (EvCallback msg (Some err) msg')"
  let ?b = "failed_calls (trace w)"
  from assms(2,3) have lim: "maxRetryLimit (opts c) = 0" by (simp add: repairConsumer_limit)
  from assms(4,5) have one: "handlerMsg c w [msg] = Return (?c1, ?w1)" by simp
  have at: "failureCounts ?c1 msg' = Some ?n" by (simp add: increment_def)
  from reachable_counts [OF assms(1)] have cw: "counts_within (failureCounts c) ?b" by simp
  from counts_within_increment [OF cw, of msg']
  have cw1: "counts_within (failureCounts ?c1) (Suc ?b)" by simp
  have first: "failureCounts c msg' = None \<longrightarrow> ?n = 1" by simp
  from reachable_well_formed [OF assms(1)] have wf: "well_formed c" by simp
  then have wf1: "well_formed ?c1" by (simp add: well_formed_frame)
  from assms(6) have mb1: "deadLetterMailbox (opts ?c1) = Some mailbox" by simp
  have esc: "failureCounts c msg' = None
               \<or> Suc (failed_calls (trace w)) < 2 ^ (LENGTH('w) - 1) \<longrightarrow>
                 maxRetryLimit (opts ?c1) \<le> sint ?n
                 \<and> (\<forall>order. range_order (failureCounts ?c1) order \<longrightarrow>
                      (\<exists>c2 w2 tr1 tr2 r. deliverDeadLetter ?c1 ?w1 order = Return (c2, w2)
                         \<and> trace w2 = trace ?w1 @ tr1 @ [EvDeliver msg' r msg'] @ tr2))"
  proof
    assume a: "failureCounts c msg' = None \<or> Suc (failed_calls (trace w)) < 2 ^ (LENGTH('w) - 1)"
    have pos: "1 \<le> sint ?n"
    proof (cases "failureCounts c msg'")
      case None
      from assms(8) have "0 < LENGTH('w) - 1" by simp
      then have "(1::nat) < 2 ^ (LENGTH('w) - 1)"
        using one_less_power [of "2::nat" "LENGTH('w) - 1"] by simp
      from sint_of_nat_small [OF this] have "sint (1 :: 'w word) = 1" by simp
      with None show ?thesis by simp
    next
      case (Some k)
      with a have "Suc ?b < 2 ^ (LENGTH('w) - 1)" by simp
      from counts_within_positive(1) [OF cw1 this at] show ?thesis .
    qed
    with lim have le: "maxRetryLimit (opts ?c1) \<le> sint ?n" by simp
    moreover have "\<forall>order. range_order (failureCounts ?c1) order \<longrightarrow>
               (\<exists>c2 w2 tr1 tr2 r. deliverDeadLetter ?c1 ?w1 order = Return (c2, w2)
                  \<and> trace w2 = trace ?w1 @ tr1 @ [EvDeliver msg' r msg'] @ tr2)"
      using deliverDeadLetter_delivers [OF wf1 _ at le mb1 assms(7)] by blast
    ultimately show "maxRetryLimit (opts ?c1) \<le> sint ?n
                 \<and> (\<forall>order. range_order (failureCounts ?c1) order \<longrightarrow>
                      (\<exists>c2 w2 tr1 tr2 r. deliverDeadLetter ?c1 ?w1 order = Return (c2, w2)
                         \<and> trace w2 = trace ?w1 @ tr1 @ [EvDeliver msg' r msg'] @ tr2))" ..
  qed
  have "\<exists>c1 w1 n. handlerMsg c w [msg] = Return (c1, w1)
          \<and> failureCounts c1 msg' = Some n
          \<and> (failureCounts c msg' = None \<longrightarrow> n = 1)
          \<and> (failureCounts c msg' = None
               \<or> Suc (failed_calls (trace w)) < 2 ^ (LENGTH('w) - 1) \<longrightarrow>
                 maxRetryLimit (opts c1) \<le> sint n
                 \<and> (\<forall>order. range_order (failureCounts c1) order \<longrightarrow>
                      (\<exists>c2 w2 tr1 tr2 r. deliverDeadLetter c1 w1 order = Return (c2, w2)
                         \<and> trace w2 = trace w1 @ tr1 @ [EvDeliver msg' r msg'] @ tr2)))"
  proof (rule exI [of _ ?c1], rule exI [of _ ?w1], rule exI [of _ ?n], intro conjI)
    show "handlerMsg c w [msg] = Return (?c1, ?w1)" by (rule one)
    show "failureCounts ?c1 msg' = Some ?n" by (rule at)
    show "failureCounts c msg' = None \<longrightarrow> ?n = 1" by (rule first)
    show "failureCounts c msg' = None
               \<or> Suc (failed_calls (trace w)) < 2 ^ (LENGTH('w) - 1) \<longrightarrow>
                 maxRetryLimit (opts ?c1) \<le> sint ?n
                 \<and> (\<forall>order. range_order (failureCounts ?c1) order \<longrightarrow>
                      (\<exists>c2 w2 tr1 tr2 r. deliverDeadLetter ?c1 ?w1 order = Return (c2, w2)
                         \<and> trace w2 = trace ?w1 @ tr1 @ [EvDeliver msg' r msg'] @ tr2))"
      by (rule esc)
  qed
  moreover have "failed_calls (trace w) < 2 ^ (LENGTH('w) - 1) \<longrightarrow>
         (\<forall>m k order. failureCounts c m = Some k \<and> range_order (failureCounts c) order \<longrightarrow>
           (\<exists>c2 w2 tr1 tr2 r. deliverDeadLetter c w order = Return (c2, w2)
              \<and> trace w2 = trace w @ tr1 @ [EvDeliver m r m] @ tr2))"
  proof (intro allI impI)
    fix m k order
    assume b: "failed_calls (trace w) < 2 ^ (LENGTH('w) - 1)"
      and a: "failureCounts c m = Some k \<and> range_order (failureCounts c) order"
    from a have "failureCounts c m = Some k" ..
    from counts_within_positive(1) [OF cw b this] have "1 \<le> sint k" .
    with lim have "maxRetryLimit (opts c) \<le> sint k" by simp
    with a wf assms(6,7)
    show "\<exists>c2 w2 tr1 tr2 r. deliverDeadLetter c w order = Return (c2, w2)
              \<and> trace w2 = trace w @ tr1 @ [EvDeliver m r m] @ tr2"
      using deliverDeadLetter_delivers [of c order m k mailbox w] by simp
  qed
  ultimately show ?thesis using lim by blast
qed

theorem zero_limit_escalates_witness:
  "maxRetryLimit (opts (startedConsumer failingCallback (replyClient 1) 0 DeadLetterLogger
                          :: 64 word Consumer)) = 0
   \<and> mailbox_keeps DeadLetterLogger
   \<and> 1 < LENGTH(64)
   \<and> (\<exists>c2 w2 tr1 tr2 r.
         deliverDeadLetter
           (startedConsumer failingCallback (replyClient 1) 0 DeadLetterLogger
              \<lparr>failureCounts := [msg1 \<mapsto> 1]\<rparr> :: 64 word Consumer)
           \<lparr>clock = Suc 0,
            trace = [EvCallback msg1 (Some (ErrExternal ''handler failed'')) msg1]\<rparr>
           [msg1] = Return (c2, w2)
         \<and> trace w2 = [EvCallback msg1 (Some (ErrExternal ''handler failed'')) msg1]
                        @ tr1 @ [EvDeliver msg1 r msg1] @ tr2)"
proof -
  let ?c = "startedConsumer failingCallback (replyClient 1) 0 DeadLetterLogger
              :: 64 word Consumer"
  let ?w = "\<lparr>clock = 0, trace = []\<rparr>"
  let ?os = "\<lparr>receiveTimeout = 0, maxRetryLimit = 0, deadLetterMailbox = Some DeadLetterLogger,
              deadLetterDeliverTimeout = 0, handleMsgTimeout = 0\<rparr>"
  have r: "reachable (?c, ?w)" by (rule startedConsumer_reachable) simp
  have op: "opts ?c = repairConsumer ?os"
    by (simp add: startedConsumer_def repairConsumer_def Let_def)
  have lz: "maxRetryLimit ?os = 0" by simp
  have cb: "callbackFunc ?c = Some failingCallback" by (simp add: startedConsumer_def)
  have fl: "failingCallback (clock ?w) msg1 = (Some (ErrExternal ''handler failed''), msg1)"
    by (simp add: failingCallback_def)
  have mb: "deadLetterMailbox (opts ?c) = Some DeadLetterLogger"
    by (simp add: startedConsumer_def)
  have keeps: "mailbox_keeps DeadLetterLogger" by (simp add: mailbox_keeps_def)
  have width: "1 < LENGTH(64)" by simp
  have fresh: "failureCounts ?c msg1 = None" by (simp add: startedConsumer_def)
  from zero_limit_escalates [OF r op lz cb fl mb keeps width] fresh
  obtain c1 w1 where l: "maxRetryLimit (opts ?c) = 0"
    and h: "handlerMsg ?c ?w [msg1] = Return (c1, w1)"
    and e: "\<forall>order. range_order (failureCounts c1) order \<longrightarrow>
               (\<exists>c2 w2 tr1 tr2 r. deliverDeadLetter c1 w1 order = Return (c2, w2)
                  \<and> trace w2 = trace w1 @ tr1 @ [EvDeliver msg1 r msg1] @ tr2)"
    by blast
  have "handlerMsg ?c ?w [msg1]
          = Return (?c\<lparr>failureCounts := [msg1 \<mapsto> 1]\<rparr>,
                    \<lparr>clock = Suc 0,
                     trace = [EvCallback msg1 (Some (ErrExternal ''handler failed'')) msg1]\<rparr>)"
    by (rule failing_first)
  with h
  have c1: "c1 = ?c\<lparr>failureCounts := [msg1 \<mapsto> 1]\<rparr>"
    and w1: "w1 = \<lparr>clock = Suc 0,
                   trace = [EvCallback msg1 (Some (ErrExternal ''handler failed'')) msg1]\<rparr>"
    by (simp_all del: handlerMsg.simps(2))
  have "range_order (failureCounts c1) [msg1]" by (simp add: c1 range_order_def)
  with e have "\<exists>c2 w2 tr1 tr2 r. deliverDeadLetter c1 w1 [msg1] = Return (c2, w2)
                  \<and> trace w2 = trace w1 @ tr1 @ [EvDeliver msg1 r msg1] @ tr2"
    by blast
  with l keeps width show ?thesis by (simp add: c1 w1 del: deliverDeadLetter.simps(2))
qed

section \<open>Stopping\<close>

lemma Stop_returns:
  "stop c = Some cancel \<Longrightarrow> Stop c = Return (c\<lparr>ctx := (ctx c)\<lparr>Done := True\<rparr>\<rparr>)"
  by (simp add: Stop_def cancel_def)

lemma StopTimes_stopped:
  "stop c = Some cancel \<Longrightarrow>
     StopTimes n (c\<lparr>ctx := (ctx c)\<lparr>Done := True\<rparr>\<rparr>) = Return (c\<lparr>ctx := (ctx c)\<lparr>Done := True\<rparr>\<rparr>)"
proof (induction n)
  case 0
  show ?case by simp
next
  case (Suc n)
  then show ?case by (simp add: Stop_def cancel_def)
qed

text \<open>
  Claim C9. On a consumer of the loop, \<open>Stop\<close> returns, without a panic (and it has no
  error result), the consumer with its context done and every other field as it was; in
  particular the failure table is untouched. Stopping any number of times, at least once,
  gives the same consumer as stopping once.
\<close>

theorem Stop_idempotent:
  assumes "reachable (c, w)" and "0 < n"
  shows "Stop c = Return (c\<lparr>ctx := (ctx c)\<lparr>Done := True\<rparr>\<rparr>)
         \<and> StopTimes n c = Stop c
         \<and> failureCounts (c\<lparr>ctx := (ctx c)\<lparr>Done := True\<rparr>\<rparr>) = failureCounts c"
proof -
  from reachable_well_formed [OF assms(1)] have st: "stop c = Some cancel"
    by (simp add: well_formed_def)
  from assms(2) obtain k where "n = Suc k" by (cases n) auto
  with st have "StopTimes n c = Stop c"
    by (simp add: Stop_returns StopTimes_stopped)
  with st show ?thesis by (simp add: Stop_returns)
qed

theorem Stop_idempotent_witness:
  "Stop (startedConsumer succeedingCallback (replyClient 1) 2 DeadLetterLogger
           :: 64 word Consumer)
     = Return (startedConsumer succeedingCallback (replyClient 1) 2 DeadLetterLogger
                 \<lparr>ctx := \<lparr>Done = True\<rparr>\<rparr>)
   \<and> StopTimes 3 (startedConsumer succeedingCallback (replyClient 1) 2 DeadLetterLogger
                    :: 64 word Consumer)
     = Stop (startedConsumer succeedingCallback (replyClient 1) 2 DeadLetterLogger)"
proof -
  have r: "reachable (startedConsumer succeedingCallback (replyClient 1) 2 DeadLetterLogger
                        :: 64 word Consumer,
             \<lparr>clock = 0, trace = []\<rparr>)"
    by (rule startedConsumer_reachable) simp
  have "(0::nat) < 3" by simp
  from Stop_idempotent [OF r this] show ?thesis
    by (simp add: startedConsumer_def)
qed

section \<open>Counts in the failure table\<close>

text \<open>
  A message that cannot be acknowledged: the callback always fails, the retry limit is 1
  and the stream answers every acknowledgment with 0. In each pass the escalation hands
  the message to the mailbox, the acknowledgment fails and the entry stays, and the
  callback fails once more: the count goes up by one per pass, as long as it is below the
  largest integer.
\<close>

lemma stuck_first_pass:
  assumes "1 < LENGTH('w::len)"
  shows "iteration (startedConsumer failingCallback (replyClient 0) 1 DeadLetterLogger
                      :: 'w word Consumer) \<lparr>clock = 0, trace = []\<rparr> stuckFirstPass
     = Return (startedConsumer failingCallback (replyClient 0) 1 DeadLetterLogger
                 \<lparr>failureCounts := [msg1 \<mapsto> of_nat 2]\<rparr>,
               \<lparr>clock = 4,
                trace = [EvCallback msg1 (Some (ErrExternal ''handler failed'')) msg1,
                         EvDeliver msg1 None msg1,
                         EvXAck ''1-0'' (Some (ErrInvalidReply 0)),
                         EvCallback msg1 (Some (ErrExternal ''handler failed'')) msg1]\<rparr>)"
    and "cycle_ok (startedConsumer failingCallback (replyClient 0) 1 DeadLetterLogger
                     :: 'w word Consumer) \<lparr>clock = 0, trace = []\<rparr> stuckFirstPass"
proof -
  let ?c = "startedConsumer failingCallback (replyClient 0) 1 DeadLetterLogger
              :: 'w word Consumer"
  let ?cb = "EvCallback msg1 (Some (ErrExternal ''handler failed'')) msg1"
  let ?dl = "EvDeliver msg1 None msg1"
  let ?xa = "EvXAck ''1-0'' (Some (ErrInvalidReply 0))"
  from assms have "0 < LENGTH('w) - 1" by simp
  then have "(1::nat) < 2 ^ (LENGTH('w) - 1)"
    using one_less_power [of "2::nat" "LENGTH('w) - 1"] by simp
  from sint_of_nat_small [OF this] have one: "sint (1 :: 'w word) = 1" by simp
  have rcv: "receive ?c (Inr [msg1]) = Return (Inr [msg1])"
    by (simp add: receive_def xReadGroup_def startedConsumer_def)
  have h: "handlerMsg ?c \<lparr>clock = 0, trace = []\<rparr> [msg1]
             = Return (?c\<lparr>failureCounts := [msg1 \<mapsto> 1]\<rparr>, \<lparr>clock = Suc 0, trace = [?cb]\<rparr>)"
    by (rule failing_first)
  have d: "deliverDeadLetter (?c\<lparr>failureCounts := [msg1 \<mapsto> 1]\<rparr>)
               \<lparr>clock = Suc 0, trace = [?cb]\<rparr> [msg1]
             = Return (?c\<lparr>failureCounts := [msg1 \<mapsto> 1]\<rparr>,
                       \<lparr>clock = 3, trace = [?cb, ?dl, ?xa]\<rparr>)"
    using assms
    by (simp add: one startedConsumer_def replyClient_def XAck_def emit_def msg1_def)
  have pnd: "receivePending (?c\<lparr>failureCounts := [msg1 \<mapsto> 1]\<rparr>) (Inr [msg1])
               = Return (Inr [msg1])"
    by (simp add: receivePending_def xReadGroup_def startedConsumer_def)
  have h2: "handlerMsg (?c\<lparr>failureCounts := [msg1 \<mapsto> 1]\<rparr>)
               \<lparr>clock = 3, trace = [?cb, ?dl, ?xa]\<rparr> [msg1]
             = Return (?c\<lparr>failureCounts := [msg1 \<mapsto> of_nat 2]\<rparr>,
                       \<lparr>clock = 4, trace = [?cb, ?dl, ?xa, ?cb]\<rparr>)"
    by (simp add: startedConsumer_def failingCallback_def emit_def increment_def)
  show "iteration ?c \<lparr>clock = 0, trace = []\<rparr> stuckFirstPass
          = Return (?c\<lparr>failureCounts := [msg1 \<mapsto> of_nat 2]\<rparr>,
                    \<lparr>clock = 4, trace = [?cb, ?dl, ?xa, ?cb]\<rparr>)"
    by (simp add: iteration_def stuckFirstPass_def rcv h d pnd h2
          del: handlerMsg.simps(2) deliverDeadLetter.simps(2) of_nat_numeral)
  show "cycle_ok ?c \<lparr>clock = 0, trace = []\<rparr> stuckFirstPass"
    by (simp add: cycle_ok_def stuckFirstPass_def rcv h range_order_def
          del: handlerMsg.simps(2))
qed

lemma stuck_later_pass:
  assumes "1 \<le> j" and "j < 2 ^ (LENGTH('w::len) - 1)"
  shows "iteration (startedConsumer failingCallback (replyClient 0) 1 DeadLetterLogger
                      \<lparr>failureCounts := [msg1 \<mapsto> of_nat j]\<rparr> :: 'w word Consumer)
                   w stuckLaterPass
     = Return (startedConsumer failingCallback (replyClient 0) 1 DeadLetterLogger
                 \<lparr>failureCounts := [msg1 \<mapsto> of_nat (Suc j)]\<rparr>,
               w\<lparr>clock := clock w + 3,
                 trace := trace w @ [EvDeliver msg1 None msg1,
                                    EvXAck ''1-0'' (Some (ErrInvalidReply 0)),
                                    EvCallback msg1 (Some (ErrExternal ''handler failed'')) msg1]\<rparr>)"
    and "cycle_ok (startedConsumer failingCallback (replyClient 0) 1 DeadLetterLogger
                     \<lparr>failureCounts := [msg1 \<mapsto> of_nat j]\<rparr> :: 'w word Consumer)
                  w stuckLaterPass"
proof -
  let ?c = "startedConsumer failingCallback (replyClient 0) 1 DeadLetterLogger
              :: 'w word Consumer"
  let ?cb = "EvCallback msg1 (Some (ErrExternal ''handler failed'')) msg1"
  let ?dl = "EvDeliver msg1 None msg1"
  let ?xa = "EvXAck ''1-0'' (Some (ErrInvalidReply 0))"
  let ?cj = "?c\<lparr>failureCounts := [msg1 \<mapsto> of_nat j]\<rparr>"
  let ?w2 = "w\<lparr>clock := Suc (Suc (clock w)), trace := trace w @ [?dl, ?xa]\<rparr>"
  from sint_of_nat_small [OF assms(2)] assms(1)
  have big: "\<not> sint (of_nat j :: 'w word) < 1" by simp
  have rcv: "receive ?cj (Inl ErrNoMsg) = Return (Inr [])"
    by (simp add: receive_def xReadGroup_def startedConsumer_def)
  have d: "deliverDeadLetter ?cj w [msg1] = Return (?cj, ?w2)"
    using big by (simp add: startedConsumer_def replyClient_def XAck_def emit_def msg1_def)
  have pnd: "receivePending ?cj (Inr [msg1]) = Return (Inr [msg1])"
    by (simp add: receivePending_def xReadGroup_def startedConsumer_def)
  have h2: "handlerMsg ?cj ?w2 [msg1]
             = Return (?c\<lparr>failureCounts := [msg1 \<mapsto> of_nat (Suc j)]\<rparr>,
                       w\<lparr>clock := clock w + 3, trace := trace w @ [?dl, ?xa, ?cb]\<rparr>)"
    by (simp add: startedConsumer_def failingCallback_def emit_def increment_def add.commute)
  show "iteration ?cj w stuckLaterPass
          = Return (?c\<lparr>failureCounts := [msg1 \<mapsto> of_nat (Suc j)]\<rparr>,
                    w\<lparr>clock := clock w + 3, trace := trace w @ [?dl, ?xa, ?cb]\<rparr>)"
    by (simp add: iteration_def stuckLaterPass_def rcv d pnd h2
          del: handlerMsg.simps(2) deliverDeadLetter.simps(2) of_nat_Suc)
  show "cycle_ok ?cj w stuckLaterPass"
    by (simp add: cycle_ok_def stuckLaterPass_def rcv range_order_def)
qed

lemma stuck_later_passes:
  assumes "1 \<le> j" and "j + k \<le> 2 ^ (LENGTH('w::len) - 1)"
  shows "run (startedConsumer failingCallback (replyClient 0) 1 DeadLetterLogger
                \<lparr>failureCounts := [msg1 \<mapsto> of_nat j]\<rparr> :: 'w word Consumer)
             w (replicate k stuckLaterPass)
     = Return (startedConsumer failingCallback (replyClient 0) 1 DeadLetterLogger
                 \<lparr>failureCounts := [msg1 \<mapsto> of_nat (j + k)]\<rparr>,
               w\<lparr>clock := clock w + 3 * k,
                 trace := trace w @ concat (replicate k
                            [EvDeliver msg1 None msg1,
                             EvXAck ''1-0'' (Some (ErrInvalidReply 0)),
                             EvCallback msg1 (Some (ErrExternal ''handler failed'')) msg1])\<rparr>)
   \<and> cycles_ok (startedConsumer failingCallback (replyClient 0) 1 DeadLetterLogger
                   \<lparr>failureCounts := [msg1 \<mapsto> of_nat j]\<rparr> :: 'w word Consumer)
        w (replicate k stuckLaterPass)"
  using assms
proof (induction k arbitrary: j w)
  case 0
  show ?case by simp
next
  case (Suc k)
  let ?c = "startedConsumer failingCallback (replyClient 0) 1 DeadLetterLogger
              :: 'w word Consumer"
  let ?later = "[EvDeliver msg1 None msg1,
                 EvXAck ''1-0'' (Some (ErrInvalidReply 0)),
                 EvCallback msg1 (Some (ErrExternal ''handler failed'')) msg1]"
  let ?w1 = "w\<lparr>clock := clock w + 3, trace := trace w @ ?later\<rparr>"
  from Suc.prems have j: "j < 2 ^ (LENGTH('w) - 1)" by simp
  note it = stuck_later_pass [OF Suc.prems(1) j, of w]
  from Suc.prems have "1 \<le> Suc j" and "Suc j + k \<le> 2 ^ (LENGTH('w) - 1)" by simp_all
  note ih = Suc.IH [OF this, of ?w1]
  have nd: "\<not> Done (ctx (?c\<lparr>failureCounts := [msg1 \<mapsto> of_nat j]\<rparr>))"
    by (simp add: startedConsumer_def background_def)
  have w: "?w1\<lparr>clock := clock ?w1 + 3 * k,
               trace := trace ?w1 @ concat (replicate k ?later)\<rparr>
           = w\<lparr>clock := clock w + 3 * Suc k,
               trace := trace w @ concat (replicate (Suc k) ?later)\<rparr>"
    by simp
  have "run (?c\<lparr>failureCounts := [msg1 \<mapsto> of_nat j]\<rparr>) w (replicate (Suc k) stuckLaterPass)
          = run (?c\<lparr>failureCounts := [msg1 \<mapsto> of_nat (Suc j)]\<rparr>) ?w1
              (replicate k stuckLaterPass)"
    using nd it(1) by (simp only: replicate_Suc run.simps if_False outcome.case prod.case)
  also from ih have "\<dots> = Return (?c\<lparr>failureCounts := [msg1 \<mapsto> of_nat (Suc j + k)]\<rparr>,
                      ?w1\<lparr>clock := clock ?w1 + 3 * k,
                          trace := trace ?w1 @ concat (replicate k ?later)\<rparr>)" ..
  finally have r: "run (?c\<lparr>failureCounts := [msg1 \<mapsto> of_nat j]\<rparr>) w
                      (replicate (Suc k) stuckLaterPass)
          = Return (?c\<lparr>failureCounts := [msg1 \<mapsto> of_nat (j + Suc k)]\<rparr>,
                    w\<lparr>clock := clock w + 3 * Suc k,
                      trace := trace w @ concat (replicate (Suc k) ?later)\<rparr>)"
    by (simp only: w add_Suc add_Suc_right)
  from ih have "cycles_ok (?c\<lparr>failureCounts := [msg1 \<mapsto> of_nat (Suc j)]\<rparr>) ?w1
                  (replicate k stuckLaterPass)" ..
  with nd it have ok: "cycles_ok (?c\<lparr>failureCounts := [msg1 \<mapsto> of_nat j]\<rparr>) w
                  (replicate (Suc k) stuckLaterPass)"
    by (simp only: replicate_Suc cycles_ok.simps outcome.case prod.case simp_thms)
  from r ok show ?case ..
qed

text \<open>
  Claim C10, as stated, on a 64-bit build, with a message that cannot be acknowledged. The
  consumer is constructed with an empty table; the first pass of the loop claims the
  message and finds it pending, and 2^63 - 2 more passes find it pending. The callback
  has then failed 2^63 times: the message has an entry, and its count has wrapped around
  to the smallest integer, which is not at least 1. (On a 32-bit build the same happens
  after 2^31 failures.)
\<close>

theorem count_wraps_around:
  "NewConsumer (Some (replyClient 0)) ''T'' ''G'' ''C'' (Some failingCallback)
      [WithMaxRetryLimit 1, WithDeadLetterMailbox (Some DeadLetterLogger)]
     = Return (Inr (startedConsumer failingCallback (replyClient 0) 1 DeadLetterLogger
                      :: 64 word Consumer),
               [GoRun (startedConsumer failingCallback (replyClient 0) 1 DeadLetterLogger)])
   \<and> cycles_ok (startedConsumer failingCallback (replyClient 0) 1 DeadLetterLogger
                   :: 64 word Consumer)
        \<lparr>clock = 0, trace = []\<rparr> (stuckFirstPass # replicate (2 ^ 63 - 2) stuckLaterPass)
   \<and> run (startedConsumer failingCallback (replyClient 0) 1 DeadLetterLogger
             :: 64 word Consumer)
        \<lparr>clock = 0, trace = []\<rparr> (stuckFirstPass # replicate (2 ^ 63 - 2) stuckLaterPass)
     = Return (startedConsumer failingCallback (replyClient 0) 1 DeadLetterLogger
                 \<lparr>failureCounts := [msg1 \<mapsto> 2 ^ 63]\<rparr>,
               \<lparr>clock = 4 + 3 * (2 ^ 63 - 2),
                trace = [EvCallback msg1 (Some (ErrExternal ''handler failed'')) msg1,
                         EvDeliver msg1 None msg1,
                         EvXAck ''1-0'' (Some (ErrInvalidReply 0)),
                         EvCallback msg1 (Some (ErrExternal ''handler failed'')) msg1]
                        @ concat (replicate (2 ^ 63 - 2)
                            [EvDeliver msg1 None msg1,
                             EvXAck ''1-0'' (Some (ErrInvalidReply 0)),
                             EvCallback msg1 (Some (ErrExternal ''handler failed'')) msg1])\<rparr>)
   \<and> sint (2 ^ 63 :: 64 word) = - (2 ^ 63)
   \<and> \<not> 1 \<le> sint (2 ^ 63 :: 64 word)"
proof -
  let ?c = "startedConsumer failingCallback (replyClient 0) 1 DeadLetterLogger
              :: 64 word Consumer"
  let ?first = "[EvCallback msg1 (Some (ErrExternal ''handler failed'')) msg1,
                 EvDeliver msg1 None msg1,
                 EvXAck ''1-0'' (Some (ErrInvalidReply 0)),
                 EvCallback msg1 (Some (ErrExternal ''handler failed'')) msg1]"
  let ?later = "[EvDeliver msg1 None msg1,
                 EvXAck ''1-0'' (Some (ErrInvalidReply 0)),
                 EvCallback msg1 (Some (ErrExternal ''handler failed'')) msg1]"
  let ?w0 = "\<lparr>clock = 0, trace = []\<rparr>"
  let ?w1 = "\<lparr>clock = 4, trace = ?first\<rparr>"
  define k :: nat where "k = 2 ^ 63 - 2"
  have K: "2 + k = 2 ^ 63" by (simp add: k_def)
  have width: "1 < LENGTH(64)" by simp
  note first = stuck_first_pass [where ?'w = 64, OF width]
  have "(2::nat) + k \<le> 2 ^ (LENGTH(64) - 1)" using K by simp
  note later = stuck_later_passes [where ?'w = 64 and j = 2 and k = k and w = ?w1, OF _ this]
  have n: "(of_nat (2 ^ 63) :: 64 word) = 2 ^ 63" by simp
  have nd: "\<not> Done (ctx ?c)" by (simp add: startedConsumer_def background_def)
  have w: "?w1\<lparr>clock := clock ?w1 + 3 * k,
               trace := trace ?w1 @ concat (replicate k ?later)\<rparr>
           = \<lparr>clock = 4 + 3 * k, trace = ?first @ concat (replicate k ?later)\<rparr>"
    by simp
  have "run ?c ?w0 (stuckFirstPass # replicate k stuckLaterPass)
          = run (?c\<lparr>failureCounts := [msg1 \<mapsto> of_nat 2]\<rparr>) ?w1 (replicate k stuckLaterPass)"
    using nd first(1) by (simp only: run.simps if_False outcome.case prod.case)
  also from later have "\<dots> = Return (?c\<lparr>failureCounts := [msg1 \<mapsto> of_nat (2 + k)]\<rparr>,
                      ?w1\<lparr>clock := clock ?w1 + 3 * k,
                          trace := trace ?w1 @ concat (replicate k ?later)\<rparr>)"
    by simp
  finally have r: "run ?c ?w0 (stuckFirstPass # replicate k stuckLaterPass)
          = Return (?c\<lparr>failureCounts := [msg1 \<mapsto> 2 ^ 63]\<rparr>,
                    \<lparr>clock = 4 + 3 * k, trace = ?first @ concat (replicate k ?later)\<rparr>)"
    by (simp only: w K n)
  from later have "cycles_ok (?c\<lparr>failureCounts := [msg1 \<mapsto> of_nat 2]\<rparr>) ?w1
                     (replicate k stuckLaterPass)"
    by simp
  with nd first have ok: "cycles_ok ?c ?w0 (stuckFirstPass # replicate k stuckLaterPass)"
    by (simp only: cycles_ok.simps outcome.case prod.case simp_thms)
  have made: "NewConsumer (Some (replyClient 0)) ''T'' ''G'' ''C'' (Some failingCallback)
      [WithMaxRetryLimit 1, WithDeadLetterMailbox (Some DeadLetterLogger)]
     = Return (Inr ?c, [GoRun ?c])"
    by (rule startedConsumer_constructed) simp
  have s: "sint (2 ^ 63 :: 64 word) = - (2 ^ 63)" by simp
  then have "\<not> 1 \<le> sint (2 ^ 63 :: 64 word)" by simp
  with made ok r s show ?thesis unfolding k_def by (intro conjI)
qed

text \<open>
  Claim C10, amended. In every state the loop can be in (the consumer constructed with an
  empty table, then any sequence of batches handled and escalations, with \<open>Stop\<close> called
  at any moment), every entry of the failure table has a count of at least 1, as long as
  the number of callbacks that have failed so far is below 2^(w-1), \<open>w\<close> being the width
  of the integers of the table (below 2^63 on a 64-bit build, below 2^31 on a 32-bit one).
\<close>

theorem failureCounts_at_least_one:
  assumes "reachable (c :: 'w::len word Consumer, w)"
    and "failed_calls (trace w) < 2 ^ (LENGTH('w) - 1)"
    and "failureCounts c msg = Some n"
  shows "1 \<le> sint n"
proof -
  from reachable_counts [OF assms(1)]
  have "counts_within (failureCounts c) (failed_calls (trace w))" by simp
  from counts_within_positive(1) [OF this assms(2,3)] show ?thesis .
qed

theorem failureCounts_at_least_one_witness:
  "reachable (startedConsumer failingCallback (replyClient 1) 2 DeadLetterLogger
               \<lparr>failureCounts := [msg1 \<mapsto> 1 :: 64 word]\<rparr>,
             \<lparr>clock = 1,
              trace = [EvCallback msg1 (Some (ErrExternal ''handler failed'')) msg1]\<rparr>)
   \<and> failed_calls [EvCallback msg1 (Some (ErrExternal ''handler failed'')) msg1]
       < 2 ^ (LENGTH(64) - 1)
   \<and> failureCounts (startedConsumer failingCallback (replyClient 1) 2 DeadLetterLogger
               \<lparr>failureCounts := [msg1 \<mapsto> 1 :: 64 word]\<rparr>) msg1 = Some 1
   \<and> 1 \<le> sint (1 :: 64 word)"
proof -
  let ?c = "startedConsumer failingCallback (replyClient 1) 2 DeadLetterLogger
              :: 64 word Consumer"
  let ?w1 = "\<lparr>clock = 1,
             trace = [EvCallback msg1 (Some (ErrExternal ''handler failed'')) msg1]\<rparr>"
  have r0: "reachable (?c, \<lparr>clock = 0, trace = []\<rparr>)"
    by (rule startedConsumer_reachable) simp
  have r1: "reachable (?c\<lparr>failureCounts := [msg1 \<mapsto> 1]\<rparr>, ?w1)"
    using reachable.handled [OF r0 failing_first] by simp
  have b: "failed_calls (trace ?w1) < 2 ^ (LENGTH(64) - 1)" by simp
  have at: "failureCounts (?c\<lparr>failureCounts := [msg1 \<mapsto> 1]\<rparr>) msg1 = Some 1"
    by simp
  from failureCounts_at_least_one [OF r1 b at] r1 b at show ?thesis by simp
qed

end
